theory Spec2Isabelle
  imports Complex_Main "HOL-Library.Word"
begin

section \<open>The filtering module of the lighttable (src/libs/filtering.c)\<close>

text \<open>
  The module keeps a list of at most \<open>MAX_RULES\<close> filter rules.  The rules live twice: in
  the application's configuration store, under keys built with \<open>snprintf\<close>, and in an
  in-memory array of rule structs that mirrors the widgets.  The development below embeds
  the functions that read and write the configuration store and the rule counter; GTK
  widgets and the image database are outside the model, and what the code reads from them
  is a parameter of the embedded function.
\<close>

subsection \<open>Constants\<close>

definition MAX_RULES :: nat where
  "MAX_RULES = 10"

definition PARAM_STRING_SIZE :: nat where
  "PARAM_STRING_SIZE = 256"

subsection \<open>Library functions: string formatting, copying and splitting\<close>

text \<open>The decimal digits printed by the conversions \<open>%d\<close> and \<open>%u\<close>.\<close>

definition digit_char :: "nat \<Rightarrow> char" where
  "digit_char d = ''0123456789'' ! d"

function dec_nat :: "nat \<Rightarrow> string" where
  "dec_nat n = (if n < 10 then [digit_char n] else dec_nat (n div 10) @ [digit_char (n mod 10)])"
  by pat_completeness auto
termination
  by (relation "measure (\<lambda>n. n)") auto

declare dec_nat.simps [simp del]

text \<open>\<open>%1d\<close> and \<open>%d\<close>: a minimum width of one never pads.\<close>

definition fmt_d :: "int \<Rightarrow> string" where
  "fmt_d i = (if i < 0 then CHR ''-'' # dec_nat (nat (- i)) else dec_nat (nat i))"

text \<open>\<open>%1u\<close> on the value of a \<open>uint32_t\<close>.\<close>

definition fmt_u :: "nat \<Rightarrow> string" where
  "fmt_u n = dec_nat n"

text \<open>
  \<open>g_strlcpy (dst, src, size)\<close> and \<open>snprintf (dst, size, "%s", src)\<close>: at most
  \<open>size - 1\<close> characters are copied, the rest of the source is cut off.
\<close>

definition g_strlcpy :: "string \<Rightarrow> nat \<Rightarrow> string" where
  "g_strlcpy src dest_size = take (dest_size - 1) src"

text \<open>
  \<open>snprintf (dst, size, "%s", text)\<close>.  The C library prints the NULL pointer as
  \<open>(null)\<close>.
\<close>

definition snprintf_s :: "nat \<Rightarrow> string option \<Rightarrow> string" where
  "snprintf_s dest_size text =
     take (dest_size - 1) (case text of None \<Rightarrow> ''(null)'' | Some t \<Rightarrow> t)"

text \<open>The macro \<open>CLAMP (x, low, high)\<close> of GLib.\<close>

definition CLAMP :: "int \<Rightarrow> int \<Rightarrow> int \<Rightarrow> int" where
  "CLAMP x low high = (if x > high then high else if x < low then low else x)"

text \<open>
  The range of an \<open>int\<close> of C, and the value an \<open>int\<close> of 32 bits holds after an
  addition or a subtraction whose result leaves that range: the result in two's
  complement.
\<close>

definition INT_MAX :: int where
  "INT_MAX = 2147483647"

definition INT_MIN :: int where
  "INT_MIN = - 2147483648"

definition int32_wrap :: "int \<Rightarrow> int" where
  "int32_wrap x = sint (word_of_int x :: 32 word)"

text \<open>
  \<open>g_strsplit (string, delimiter, -1)\<close> of GLib for a delimiter of one character: the
  text is cut at every delimiter; the empty text gives the empty vector, every other
  text gives one piece more than it has delimiters.
\<close>

function split_at :: "char \<Rightarrow> string \<Rightarrow> string list" where
  "split_at d s =
     (case dropWhile (\<lambda>c. c \<noteq> d) s of
        [] \<Rightarrow> [takeWhile (\<lambda>c. c \<noteq> d) s]
      | _ # remainder \<Rightarrow> takeWhile (\<lambda>c. c \<noteq> d) s # split_at d remainder)"
  by pat_completeness auto
termination
proof (relation "measure (\<lambda>(d, s). length s)")
  show "wf (measure (\<lambda>(d, s). length s))"
    by simp
next
  fix d :: char and s :: string and x :: char and remainder :: string
  assume "dropWhile (\<lambda>c. c \<noteq> d) s = x # remainder"
  then have "length (x # remainder) \<le> length s"
    by (metis length_dropWhile_le)
  then show "((d, remainder), (d, s)) \<in> measure (\<lambda>(d, s). length s)"
    by simp
qed

declare split_at.simps [simp del]

definition g_strsplit :: "string \<Rightarrow> char \<Rightarrow> string list" where
  "g_strsplit s d = (if s = [] then [] else split_at d s)"

subsection \<open>The raw text of a file name rule\<close>

text \<open>
  \<open>_filename_changed\<close> builds the raw text of the rule from the two entries with
  \<open>g_strdup_printf ("%s/%s", name, ext)\<close>.
\<close>

definition filename_raw_text :: "string \<Rightarrow> string \<Rightarrow> string" where
  "filename_raw_text name ext = name @ ''/'' @ ext"

text \<open>
  \<open>_filename_decode (txt, &name, &ext)\<close>.  \<open>None\<close> is the NULL pointer; the pair is
  the content of the two output arguments, before and after the call.
\<close>

definition filename_decode ::
  "string option \<Rightarrow> string option \<times> string option \<Rightarrow> string option \<times> string option" where
  "filename_decode txt out =
     (case txt of
        None \<Rightarrow> out
      | Some t \<Rightarrow>
          if length t = 0 then out
          else
            let elems = g_strsplit t (CHR ''/'')
            in if length elems = 2 then (Some (elems ! 0), Some (elems ! 1)) else out)"

subsection \<open>The configuration store\<close>

text \<open>
  Modelled from the spec: the configuration store of the host application
  (\<open>control/conf.h\<close>, which is not under src/) holds key/value pairs.  A key read as an
  integer holds an \<open>int\<close>; a key read as a string holds a string or is missing, and a
  missing value is the NULL pointer (\<open>None\<close>).  A value that was written is the value
  read back, and writing one key changes no other key.  Both
  \<open>dt_conf_get_string\<close> and \<open>dt_conf_get_string_const\<close> are \<open>dt_conf_get_string\<close>
  here: they differ in who owns the memory.  An \<open>int\<close> of C is an \<open>int\<close> here, and
  a configuration holds values between \<open>INT_MIN\<close> and \<open>INT_MAX\<close>.  The code adds and
  subtracts 1 on the number of rules, which stays between 0 and \<open>MAX_RULES\<close>, on the
  stored number of rules before it is clamped, and on the use counters; the history is
  the one place where a property of the module depends on a result outside the range,
  and there the wrap-around is written out.
\<close>

record conf =
  ints :: "string \<Rightarrow> int"
  strs :: "string \<Rightarrow> string option"

definition dt_conf_get_int :: "conf \<Rightarrow> string \<Rightarrow> int" where
  "dt_conf_get_int c name = ints c name"

definition dt_conf_set_int :: "string \<Rightarrow> int \<Rightarrow> conf \<Rightarrow> conf" where
  "dt_conf_set_int name v c = c\<lparr>ints := (ints c)(name := v)\<rparr>"

definition dt_conf_get_string :: "conf \<Rightarrow> string \<Rightarrow> string option" where
  "dt_conf_get_string c name = strs c name"

definition dt_conf_set_string :: "string \<Rightarrow> string option \<Rightarrow> conf \<Rightarrow> conf" where
  "dt_conf_set_string name v c = c\<lparr>strs := (strs c)(name := v)\<rparr>"

subsection \<open>The names of the configuration keys\<close>

text \<open>
  \<open>snprintf (confname, sizeof (confname), "plugins/lighttable/filtering/item%1d", i)\<close>
  and its siblings.  The buffer of 200 characters is never filled: the longest name has
  29 + 7 characters and at most 11 more for the number.
\<close>

definition confname :: "string \<Rightarrow> string \<Rightarrow> string" where
  "confname field n = ''plugins/lighttable/filtering/'' @ field @ n"

definition key_item :: "int \<Rightarrow> string" where
  "key_item i = confname ''item'' (fmt_d i)"

definition key_mode :: "int \<Rightarrow> string" where
  "key_mode i = confname ''mode'' (fmt_d i)"

definition key_off :: "int \<Rightarrow> string" where
  "key_off i = confname ''off'' (fmt_d i)"

definition key_string :: "int \<Rightarrow> string" where
  "key_string i = confname ''string'' (fmt_d i)"

definition key_history :: "int \<Rightarrow> string" where
  "key_history i = confname ''history'' (fmt_d i)"

definition key_nb_use :: "int \<Rightarrow> string" where
  "key_nb_use m = confname ''nb_use_'' (fmt_d m)"

text \<open>The same names printed with \<open>%1u\<close>, as \<open>set_params\<close> does.\<close>

definition key_item_u :: "nat \<Rightarrow> string" where
  "key_item_u i = confname ''item'' (fmt_u i)"

definition key_mode_u :: "nat \<Rightarrow> string" where
  "key_mode_u i = confname ''mode'' (fmt_u i)"

definition key_off_u :: "nat \<Rightarrow> string" where
  "key_off_u i = confname ''off'' (fmt_u i)"

definition key_string_u :: "nat \<Rightarrow> string" where
  "key_string_u i = confname ''string'' (fmt_u i)"

text \<open>The names the code writes as literals.\<close>

definition key_num_rules :: string where
  "key_num_rules = ''plugins/lighttable/filtering/num_rules''"

definition key_history0 :: string where
  "key_history0 = ''plugins/lighttable/filtering/history0''"

definition key_history_max :: string where
  "key_history_max = ''plugins/lighttable/filtering/history_max''"

definition key_order :: string where
  "key_order = ''plugins/lighttable/filtering/order''"

subsection \<open>The parameter block\<close>

text \<open>
  \<open>dt_lib_filtering_params_rule_t\<close> and \<open>dt_lib_filtering_params_t\<close>.  The three bit
  fields are 16 bits wide.  The field \<open>string\<close> is the C string held in the buffer
  \<open>char string[PARAM_STRING_SIZE]\<close>: the characters before the terminating NUL, of
  which the buffer has room for \<open>PARAM_STRING_SIZE - 1\<close>.  The array \<open>rule[MAX_RULES]\<close>
  is a list of that length.
\<close>

record params_rule =
  item :: "16 word"
  mode :: "16 word"
  off :: "16 word"
  string :: string

record params =
  rules :: "32 word"
  rule :: "params_rule list"

text \<open>What \<open>memset (p, 0, sizeof (dt_lib_filtering_params_t))\<close> leaves.\<close>

definition zero_params_rule :: params_rule where
  "zero_params_rule = \<lparr>item = 0, mode = 0, off = 0, string = []\<rparr>"

definition zero_params :: params where
  "zero_params = \<lparr>rules = 0, rule = replicate MAX_RULES zero_params_rule\<rparr>"

subsection \<open>The state of the module\<close>

text \<open>
  \<open>dt_lib_filtering_rule_t\<close>: the number of the rule, its property
  (\<open>prop\<close>, a \<open>dt_collection_properties_t\<close>), its raw text, the counter that mutes the
  event handlers, and whether the main widget exists (\<open>w_main\<close> is not NULL).
\<close>

record filtering_rule =
  num :: int
  rprop :: int
  raw_text :: string
  manual_widget_set :: int
  w_main :: bool

text \<open>
  \<open>dt_lib_filtering_t\<close> (\<open>d_rule\<close> is \<open>d->rule\<close>, \<open>d_params\<close> is \<open>*d->params\<close>)
  together with the configuration store the module works on.  A pointer to a rule is
  the position of the rule in \<open>d_rule\<close>.
\<close>

record module =
  conf :: conf
  d_rule :: "filtering_rule list"
  nb_rules :: int
  d_params :: params
  last_where_ext :: "string option"

text \<open>
  What a handler reads from the host application and from the widgets while it runs:
  the text \<open>dt_collection_serialize\<close> writes into \<open>buf\<close>, the active entry of the
  operator combo box, the state of the on/off toggle, the sort field and direction of
  the collection, and three constants of headers that are not under src/.
\<close>

record host =
  serialized :: string
  operator_active :: int
  off_active :: bool
  sort_field :: "32 word"
  sort_descending :: bool
  DT_COLLECTION_ORDER_FLAG :: "32 word"
  DT_COLLECTION_PROP_TAG :: int
  DT_LIB_COLLECT_MODE_AND :: int

text \<open>Reading \<open>rule[i]\<close> outside the array is an error of the model.\<close>

datatype error = OutOfBounds int

subsection \<open>\<open>_filters_update_params\<close> and \<open>get_params\<close>\<close>

text \<open>
  The body of the loop of \<open>_filters_update_params\<close>: an \<open>int\<close> assigned to a bit field
  of 16 bits is cut to 16 bits; a missing string leaves the zeroed buffer.
\<close>

definition read_params_rule :: "conf \<Rightarrow> int \<Rightarrow> params_rule \<Rightarrow> params_rule" where
  "read_params_rule c i r =
     (case dt_conf_get_string c (key_string i) of
        None \<Rightarrow>
          r\<lparr>item := word_of_int (dt_conf_get_int c (key_item i)),
            mode := word_of_int (dt_conf_get_int c (key_mode i)),
            off := word_of_int (dt_conf_get_int c (key_off i))\<rparr>
      | Some s \<Rightarrow>
          r\<lparr>item := word_of_int (dt_conf_get_int c (key_item i)),
            mode := word_of_int (dt_conf_get_int c (key_mode i)),
            off := word_of_int (dt_conf_get_int c (key_off i)),
            string := g_strlcpy s PARAM_STRING_SIZE\<rparr>)"

function filters_update_params_loop :: "conf \<Rightarrow> int \<Rightarrow> int \<Rightarrow> params \<Rightarrow> params" where
  "filters_update_params_loop c active i p =
     (if i \<le> active
      then filters_update_params_loop c active (i + 1)
             (p\<lparr>rule := (rule p)[nat i := read_params_rule c i (rule p ! nat i)]\<rparr>)
      else p)"
  by pat_completeness auto
termination
  by (relation "measure (\<lambda>(c, active, i, p). nat (active + 1 - i))") auto

declare filters_update_params_loop.simps [simp del]

text \<open>The block \<open>_filters_update_params\<close> leaves in \<open>*d->params\<close>.\<close>

definition params_of_conf :: "conf \<Rightarrow> params" where
  "params_of_conf c =
     (let active = CLAMP (dt_conf_get_int c key_num_rules - 1) 0 (int MAX_RULES - 1)
      in (filters_update_params_loop c active 0 zero_params)\<lparr>rules := word_of_int (active + 1)\<rparr>)"

definition filters_update_params :: "module \<Rightarrow> module" where
  "filters_update_params s = s\<lparr>d_params := params_of_conf (conf s)\<rparr>"

text \<open>\<open>get_params\<close> returns a copy of the block and leaves the block updated.\<close>

definition get_params :: "module \<Rightarrow> params \<times> module" where
  "get_params s = (d_params (filters_update_params s), filters_update_params s)"

subsection \<open>\<open>_filters_gui_update\<close>\<close>

text \<open>
  \<open>_widget_init\<close> on the fields of the model: the property and the raw text are
  stored and the main widget exists afterwards; \<open>manual_widget_set\<close> is incremented
  at the start and decremented at the end.  The event handlers that the widget setters
  trigger return at once, because \<open>manual_widget_set\<close> is not zero meanwhile.
\<close>

definition widget_init :: "filtering_rule \<Rightarrow> int \<Rightarrow> string option \<Rightarrow> filtering_rule" where
  "widget_init r p text =
     r\<lparr>rprop := p, raw_text := snprintf_s PARAM_STRING_SIZE text, w_main := True\<rparr>"

function gui_update_init_loop ::
  "conf \<Rightarrow> int \<Rightarrow> int \<Rightarrow> filtering_rule list \<Rightarrow> filtering_rule list" where
  "gui_update_init_loop c n i rs =
     (if i < n
      then gui_update_init_loop c n (i + 1)
             (rs[nat i := widget_init (rs ! nat i) (dt_conf_get_int c (key_item i))
                            (dt_conf_get_string c (key_string i))])
      else rs)"
  by pat_completeness auto
termination
  by (relation "measure (\<lambda>(c, n, i, rs). nat (n - i))") auto

declare gui_update_init_loop.simps [simp del]

function gui_update_remove_loop :: "int \<Rightarrow> filtering_rule list \<Rightarrow> filtering_rule list" where
  "gui_update_remove_loop i rs =
     (if i < int MAX_RULES
      then gui_update_remove_loop (i + 1) (rs[nat i := (rs ! nat i)\<lparr>rprop := 0, w_main := False\<rparr>])
      else rs)"
  by pat_completeness auto
termination
  by (relation "measure (\<lambda>(i, rs). nat (int MAX_RULES - i))") auto

declare gui_update_remove_loop.simps [simp del]

definition filters_gui_update :: "module \<Rightarrow> module" where
  "filters_gui_update s =
     (let n = CLAMP (dt_conf_get_int (conf s) key_num_rules) 0 (int MAX_RULES)
      in s\<lparr>nb_rules := n,
           d_rule := gui_update_remove_loop n (gui_update_init_loop (conf s) n 0 (d_rule s))\<rparr>)"

subsection \<open>\<open>set_params\<close>\<close>

text \<open>
  The loop of \<open>set_params\<close> reads \<open>p->rule[i]\<close> for every \<open>i < p->rules\<close>; a bit
  field passed as \<open>int\<close> keeps its value, and \<open>p->rules\<close>, a \<open>uint32_t\<close>, is passed
  as the \<open>int\<close> with the same 32 bits.  The calls \<open>dt_view_filter_reset\<close> and
  \<open>dt_collection_update_query\<close> act on the host application and have no part in the
  model.
\<close>

definition set_params_rule :: "params_rule \<Rightarrow> nat \<Rightarrow> conf \<Rightarrow> conf" where
  "set_params_rule r i c =
     dt_conf_set_string (key_string_u i) (Some (string r))
       (dt_conf_set_int (key_off_u i) (uint (off r))
         (dt_conf_set_int (key_mode_u i) (uint (mode r))
           (dt_conf_set_int (key_item_u i) (uint (item r)) c)))"

function set_params_loop :: "params \<Rightarrow> nat \<Rightarrow> conf \<Rightarrow> error + conf" where
  "set_params_loop p i c =
     (if i < unat (rules p)
      then (if i < MAX_RULES
            then set_params_loop p (i + 1) (set_params_rule (rule p ! i) i c)
            else Inl (OutOfBounds (int i)))
      else Inr c)"
  by pat_completeness auto
termination
  by (relation "measure (\<lambda>(p, i, c). unat (rules p) - i)") auto

declare set_params_loop.simps [simp del]

definition set_params :: "params \<Rightarrow> module \<Rightarrow> error + module" where
  "set_params p s =
     (case set_params_loop p 0 (conf s) of
        Inl e \<Rightarrow> Inl e
      | Inr c \<Rightarrow>
          Inr (filters_gui_update
                (filters_update_params
                  (s\<lparr>conf := dt_conf_set_int key_num_rules (sint (rules p)) c\<rparr>))))"

subsection \<open>\<open>_history_save\<close>\<close>

text \<open>
  The first loop removes the entries equal to the serialization \<open>buf\<close> from the slots
  1 to \<open>nbmax - 1\<close> and closes the gaps; \<open>g_strcmp0\<close> of a NULL pointer and \<open>buf\<close> is
  not zero.
\<close>

function history_remove_loop :: "string \<Rightarrow> int \<Rightarrow> int \<Rightarrow> int \<Rightarrow> conf \<Rightarrow> conf" where
  "history_remove_loop buf nbmax i move c =
     (if i < nbmax
      then (if dt_conf_get_string c (key_history i) = Some buf
            then history_remove_loop buf nbmax (i + 1) (move + 1)
                   (dt_conf_set_string (key_history i) (Some []) c)
            else if move > 0
            then history_remove_loop buf nbmax (i + 1) move
                   (dt_conf_set_string (key_history (i - move)) (dt_conf_get_string c (key_history i))
                     (dt_conf_set_string (key_history i) (Some []) c))
            else history_remove_loop buf nbmax (i + 1) move c)
      else c)"
  by pat_completeness auto
termination
  by (relation "measure (\<lambda>(buf, nbmax, i, move, c). nat (nbmax - i))") auto

declare history_remove_loop.simps [simp del]

text \<open>
  The second loop moves every entry one slot on, from the last slot down.  It starts at
  \<open>nbmax - 2\<close>, which wraps around for \<open>nbmax\<close> below \<open>INT_MIN + 2\<close>; the loop then
  starts near \<open>INT_MAX\<close>, where \<open>i + 1\<close> wraps around too.  In the first loop \<open>i\<close> and
  \<open>move\<close> stay between 0 and \<open>nbmax\<close>.
\<close>

function history_shift_loop :: "int \<Rightarrow> conf \<Rightarrow> conf" where
  "history_shift_loop i c =
     (if i \<ge> 0
      then history_shift_loop (i - 1)
             (dt_conf_set_string (key_history (int32_wrap (i + 1)))
               (dt_conf_get_string c (key_history i)) c)
      else c)"
  by pat_completeness auto
termination
  by (relation "measure (\<lambda>(i, c). nat (i + 1))") auto

declare history_shift_loop.simps [simp del]

definition history_save :: "string \<Rightarrow> conf \<Rightarrow> conf" where
  "history_save buf c =
     (if dt_conf_get_string c key_history0 = Some buf then c
      else
        let nbmax = dt_conf_get_int c key_history_max
        in dt_conf_set_string key_history0 (Some buf)
             (history_shift_loop (int32_wrap (nbmax - 2)) (history_remove_loop buf nbmax 1 0 c)))"

subsection \<open>The handlers of a rule\<close>

text \<open>
  \<open>_conf_update_rule\<close>: the operator is \<open>MAX (0, gtk_combo_box_get_active (...))\<close>, the
  flag \<open>off\<close> is the negation of the toggle.
\<close>

definition conf_update_rule :: "host \<Rightarrow> nat \<Rightarrow> module \<Rightarrow> module" where
  "conf_update_rule h k s =
     (let r = d_rule s ! k
      in s\<lparr>conf :=
            history_save (serialized h)
              (dt_conf_set_int (key_off (num r)) (if off_active h then 0 else 1)
                (dt_conf_set_int (key_mode (num r)) (max 0 (operator_active h))
                  (dt_conf_set_int (key_item (num r)) (rprop r)
                    (dt_conf_set_string (key_string (num r)) (Some (raw_text r)) (conf s)))))\<rparr>)"

definition event_rule_changed :: "host \<Rightarrow> nat \<Rightarrow> module \<Rightarrow> module" where
  "event_rule_changed h k s =
     (if manual_widget_set (d_rule s ! k) \<noteq> 0 then s else conf_update_rule h k s)"

definition rule_set_raw_text :: "host \<Rightarrow> nat \<Rightarrow> string option \<Rightarrow> bool \<Rightarrow> module \<Rightarrow> module" where
  "rule_set_raw_text h k text signal s =
     (let s1 = s\<lparr>d_rule := (d_rule s)[k := (d_rule s ! k)\<lparr>raw_text := snprintf_s PARAM_STRING_SIZE text\<rparr>]\<rparr>
      in if signal then event_rule_changed h k s1 else s1)"

text \<open>
  \<open>_filename_changed\<close>, with the texts of the two entries, and \<open>_range_changed\<close> and
  \<open>_fallback_changed\<close>, with the text of their widget.  The three handlers return
  when \<open>manual_widget_set\<close> is not zero; their check of \<open>w_specific\<close> is about the
  widgets the handler is connected to, which exist when it runs.
\<close>

definition filename_changed :: "host \<Rightarrow> nat \<Rightarrow> string \<Rightarrow> string \<Rightarrow> module \<Rightarrow> module" where
  "filename_changed h k name ext s =
     (if manual_widget_set (d_rule s ! k) \<noteq> 0 then s
      else rule_set_raw_text h k (Some (filename_raw_text name ext)) True s)"

definition raw_text_changed :: "host \<Rightarrow> nat \<Rightarrow> string \<Rightarrow> module \<Rightarrow> module" where
  "raw_text_changed h k txt s =
     (if manual_widget_set (d_rule s ! k) \<noteq> 0 then s
      else rule_set_raw_text h k (Some txt) True s)"

subsection \<open>\<open>_event_rule_close\<close>\<close>

text \<open>
  The loop that moves the rules after the closed one up by one.  A rule whose string is
  missing is not moved.
\<close>

function rule_close_loop :: "int \<Rightarrow> conf \<Rightarrow> conf" where
  "rule_close_loop i c =
     (if i < int MAX_RULES - 1
      then (case dt_conf_get_string c (key_string (i + 1)) of
              None \<Rightarrow> rule_close_loop (i + 1) c
            | Some str \<Rightarrow>
                rule_close_loop (i + 1)
                  (dt_conf_set_string (key_string i) (Some str)
                    (dt_conf_set_int (key_off i) (dt_conf_get_int c (key_off (i + 1)))
                      (dt_conf_set_int (key_item i) (dt_conf_get_int c (key_item (i + 1)))
                        (dt_conf_set_int (key_mode i) (dt_conf_get_int c (key_mode (i + 1))) c)))))
      else c)"
  by pat_completeness auto
termination
  by (relation "measure (\<lambda>(i, c). nat (int MAX_RULES - 1 - i))") auto

declare rule_close_loop.simps [simp del]

text \<open>
  The handler of the close button of the rule at position \<open>k\<close> of the array.  The
  \<open>gboolean\<close> it returns to GTK is left out.
\<close>

definition event_rule_close :: "nat \<Rightarrow> module \<Rightarrow> module" where
  "event_rule_close k s =
     (if manual_widget_set (d_rule s ! k) \<noteq> 0 then s
      else if nb_rules s \<le> 0 then s
      else filters_gui_update
             (s\<lparr>nb_rules := nb_rules s - 1,
                conf := rule_close_loop (num (d_rule s ! k))
                          (dt_conf_set_int key_num_rules (nb_rules s - 1) (conf s))\<rparr>))"

subsection \<open>\<open>_event_rule_change_type\<close> and \<open>_event_append_rule\<close>\<close>

text \<open>
  \<open>_event_rule_change_type\<close> for the rule at position \<open>k\<close> and the property \<open>m\<close> chosen
  in the popup.  \<open>_widget_init_special\<close> rebuilds widgets only.  The value stored under
  \<open>order\<close> is \<open>sort | (descending ? DT_COLLECTION_ORDER_FLAG : 0)\<close>.
\<close>

definition save_order :: "host \<Rightarrow> int \<Rightarrow> int \<Rightarrow> int \<Rightarrow> conf \<Rightarrow> conf" where
  "save_order h n oldprop newprop c =
     (if n = 0 \<and> oldprop \<noteq> DT_COLLECTION_PROP_TAG h \<and> newprop = DT_COLLECTION_PROP_TAG h
      then dt_conf_set_int key_order
             (sint (or (sort_field h) (if sort_descending h then DT_COLLECTION_ORDER_FLAG h else 0))) c
      else c)"

definition event_rule_change_type :: "host \<Rightarrow> nat \<Rightarrow> int \<Rightarrow> module \<Rightarrow> module" where
  "event_rule_change_type h k m s =
     (if m = rprop (d_rule s ! k) then s
      else
        let oldprop = rprop (d_rule s ! k);
            s1 = s\<lparr>d_rule := (d_rule s)[k := (d_rule s ! k)\<lparr>rprop := m\<rparr>],
                   conf := dt_conf_set_int (key_nb_use m)
                             (dt_conf_get_int (conf s) (key_nb_use m) + 1) (conf s)\<rparr>;
            s2 = rule_set_raw_text h k (Some []) False s1;
            s3 = conf_update_rule h k s2
        in s3\<lparr>conf := save_order h (num (d_rule s3 ! k)) oldprop (rprop (d_rule s3 ! k)) (conf s3)\<rparr>)"

definition event_append_rule :: "host \<Rightarrow> int \<Rightarrow> module \<Rightarrow> module" where
  "event_append_rule h m s =
     (if m \<ge> 0
      then (if nb_rules s \<ge> int MAX_RULES then s
            else
              let n = nb_rules s;
                  c1 = dt_conf_set_string (key_string n) (Some [])
                         (dt_conf_set_int (key_off n) 0
                           (dt_conf_set_int (key_mode n) (DT_LIB_COLLECT_MODE_AND h)
                             (dt_conf_set_int (key_item n) m (conf s))));
                  c2 = dt_conf_set_int key_num_rules (n + 1) c1;
                  c3 = dt_conf_set_int (key_nb_use m) (dt_conf_get_int c2 (key_nb_use m) + 1) c2
              in filters_gui_update (s\<lparr>nb_rules := n + 1, conf := c3\<rparr>))
      else s)"

subsection \<open>\<open>gui_reset\<close>, \<open>gui_init\<close> and the signal of the collection\<close>

definition gui_reset :: "module \<Rightarrow> module" where
  "gui_reset s = s\<lparr>conf := dt_conf_set_int key_num_rules 0 (conf s)\<rparr>"

text \<open>
  \<open>gui_init\<close>: the state after \<open>calloc\<close> and the assignments, before the call of
  \<open>_filters_gui_update\<close>, and the state it leaves.  \<open>where_ext\<close> is what
  \<open>dt_collection_get_extended_where\<close> returns.
\<close>

definition zero_rule :: filtering_rule where
  "zero_rule = \<lparr>num = 0, rprop = 0, raw_text = [], manual_widget_set = 0, w_main = False\<rparr>"

definition gui_init_alloc :: "conf \<Rightarrow> string option \<Rightarrow> module" where
  "gui_init_alloc c where_ext =
     \<lparr>conf = c,
      d_rule = map (\<lambda>i. zero_rule\<lparr>num := int i\<rparr>) [0..<MAX_RULES],
      nb_rules = 0,
      d_params = zero_params,
      last_where_ext = where_ext\<rparr>"

definition gui_init :: "conf \<Rightarrow> string option \<Rightarrow> module" where
  "gui_init c where_ext = filters_gui_update (gui_init_alloc c where_ext)"

text \<open>
  \<open>_widget_update\<close> reads the database and redraws the widgets of one rule;
  \<open>manual_widget_set\<close> is incremented and decremented again.
\<close>

definition widget_update :: "filtering_rule \<Rightarrow> filtering_rule" where
  "widget_update r = r\<lparr>manual_widget_set := manual_widget_set r + 1 - 1\<rparr>"

text \<open>
  The loop of \<open>_dt_collection_updated\<close>, \<open>for (int i = 0; i <= d->nb_rules; i++)\<close>, over
  the array \<open>rule[MAX_RULES]\<close>.
\<close>

function collection_updated_loop ::
  "int \<Rightarrow> int \<Rightarrow> filtering_rule list \<Rightarrow> error + filtering_rule list" where
  "collection_updated_loop n i rs =
     (if i \<le> n
      then (if 0 \<le> i \<and> i < int MAX_RULES
            then collection_updated_loop n (i + 1) (rs[nat i := widget_update (rs ! nat i)])
            else Inl (OutOfBounds i))
      else Inr rs)"
  by pat_completeness auto
termination
  by (relation "measure (\<lambda>(n, i, rs). nat (n + 1 - i))") auto

declare collection_updated_loop.simps [simp del]

definition dt_collection_updated :: "string option \<Rightarrow> module \<Rightarrow> error + module" where
  "dt_collection_updated where_ext s =
     (if where_ext \<noteq> last_where_ext s
      then (case collection_updated_loop (nb_rules s) 0 (d_rule s) of
              Inl e \<Rightarrow> Inl e
            | Inr rs \<Rightarrow> Inr (s\<lparr>last_where_ext := where_ext, d_rule := rs\<rparr>))
      else Inr s)"

subsection \<open>The bounds of the range widgets\<close>

text \<open>
  \<open>_ratio_widget_init\<close> and \<open>_iso_widget_init\<close> ask the database for the smallest and
  the largest value; \<open>row\<close> is the row \<open>sqlite3_step\<close> delivers, if any.  The result
  is the pair \<open>(range->min_r, range->max_r)\<close>.  The \<open>double\<close> values are reals here.
\<close>

definition ratio_widget_init :: "(real \<times> real) option \<Rightarrow> real \<times> real" where
  "ratio_widget_init row =
     (case row of
        None \<Rightarrow> (0.0, 4.0)
      | Some (mn, mx) \<Rightarrow> (mn, mx))"

definition iso_widget_init :: "(real \<times> real) option \<Rightarrow> real \<times> real" where
  "iso_widget_init row =
     (case (case row of None \<Rightarrow> (50, 12800) | Some (mn, mx) \<Rightarrow> (mn, mx)) of
        (mn, mx) \<Rightarrow> (of_int \<lfloor>mn\<rfloor>, of_int \<lfloor>mx\<rfloor> + 1))"

subsection \<open>The states the module reaches\<close>

text \<open>
  The module starts with \<open>gui_init\<close>; every handler takes it to the next state.  The
  host application and other modules write the configuration too
  (\<open>dt_collection_deserialize\<close> in \<open>_event_history_apply\<close>, for one).
\<close>

inductive reachable :: "module \<Rightarrow> bool" where
  r_init: "reachable (gui_init c where_ext)"
| r_gui_update: "reachable s \<Longrightarrow> reachable (filters_gui_update s)"
| r_set_params: "reachable s \<Longrightarrow> set_params p s = Inr s' \<Longrightarrow> reachable s'"
| r_get_params: "reachable s \<Longrightarrow> reachable (snd (get_params s))"
| r_rule_changed: "reachable s \<Longrightarrow> reachable (event_rule_changed h k s)"
| r_raw_text_changed: "reachable s \<Longrightarrow> reachable (raw_text_changed h k txt s)"
| r_filename_changed: "reachable s \<Longrightarrow> reachable (filename_changed h k name ext s)"
| r_rule_close: "reachable s \<Longrightarrow> reachable (event_rule_close k s)"
| r_change_type: "reachable s \<Longrightarrow> reachable (event_rule_change_type h k m s)"
| r_append: "reachable s \<Longrightarrow> reachable (event_append_rule h m s)"
| r_reset: "reachable s \<Longrightarrow> reachable (gui_reset s)"
| r_updated: "reachable s \<Longrightarrow> dt_collection_updated where_ext s = Inr s' \<Longrightarrow> reachable s'"
| r_host: "reachable s \<Longrightarrow> reachable (s\<lparr>conf := c\<rparr>)"

subsection \<open>Vocabulary of the properties and example states\<close>

text \<open>The four values the configuration holds for the rule at position \<open>j\<close>.\<close>

definition persisted_rule :: "conf \<Rightarrow> int \<Rightarrow> int \<times> int \<times> int \<times> string option" where
  "persisted_rule c j =
     (dt_conf_get_int c (key_item j), dt_conf_get_int c (key_mode j),
      dt_conf_get_int c (key_off j), dt_conf_get_string c (key_string j))"

text \<open>
  A configuration with two rules, the second with the given string or without one; a
  configuration with ten rules; a parameter block with two rules; what a handler may
  read from the host.
\<close>

definition conf_two_rules :: "string option \<Rightarrow> conf" where
  "conf_two_rules second =
     \<lparr>ints = (\<lambda>k. 0)(key_num_rules := 2, key_item 0 := 1, key_item 1 := 2),
      strs = (\<lambda>k. None)(key_string 0 := Some ''a'', key_string 1 := second)\<rparr>"

definition example_params :: params where
  "example_params =
     \<lparr>rules = 2,
      rule = [\<lparr>item = 3, mode = 0, off = 0, string = ''>=2''\<rparr>,
              \<lparr>item = 5, mode = 1, off = 1, string = ''red''\<rparr>]
             @ replicate 8 zero_params_rule\<rparr>"

definition conf_ten_rules :: conf where
  "conf_ten_rules = \<lparr>ints = (\<lambda>k. 0)(key_num_rules := 10), strs = (\<lambda>k. Some [])\<rparr>"

definition example_host :: host where
  "example_host =
     \<lparr>serialized = ''1:0:3:0:>=2$'', operator_active = 0, off_active = True,
      sort_field = 5, sort_descending = False, DT_COLLECTION_ORDER_FLAG = 0x8000,
      DT_COLLECTION_PROP_TAG = 3, DT_LIB_COLLECT_MODE_AND = 0\<rparr>"

text \<open>
  Between two handlers the rules of the array carry their position as number and no
  handler is muted.
\<close>

definition rules_idle :: "filtering_rule list \<Rightarrow> bool" where
  "rules_idle rs \<longleftrightarrow>
     length rs = MAX_RULES
     \<and> (\<forall>k < MAX_RULES. num (rs ! k) = int k \<and> manual_widget_set (rs ! k) = 0)"

text \<open>
  The history: the entry in slot \<open>j\<close>, and the window of the slots 0 to
  \<open>history_max - 1\<close>, which are the entries the module shows and applies.
\<close>

definition history_slot :: "conf \<Rightarrow> int \<Rightarrow> string option" where
  "history_slot c j = dt_conf_get_string c (key_history j)"

definition history_window :: "conf \<Rightarrow> string option list" where
  "history_window c = map (history_slot c) [0..dt_conf_get_int c key_history_max - 1]"

text \<open>
  The keys of the rule set and all the keys the module writes; \<open>writes_within I S c c'\<close>
  says that \<open>c'\<close> differs from \<open>c\<close> at most at the integer keys in \<open>I\<close> and the
  string keys in \<open>S\<close>.
\<close>

definition rule_int_keys :: "string set" where
  "rule_int_keys = {key_num_rules} \<union> range key_item \<union> range key_mode \<union> range key_off"

definition rule_str_keys :: "string set" where
  "rule_str_keys = range key_string"

definition module_int_keys :: "string set" where
  "module_int_keys = rule_int_keys \<union> range key_nb_use \<union> {key_order}"

definition module_str_keys :: "string set" where
  "module_str_keys = rule_str_keys \<union> range key_history"

definition writes_within :: "string set \<Rightarrow> string set \<Rightarrow> conf \<Rightarrow> conf \<Rightarrow> bool" where
  "writes_within I S c c' \<longleftrightarrow>
     (\<forall>k. k \<notin> I \<longrightarrow> ints c' k = ints c k) \<and> (\<forall>k. k \<notin> S \<longrightarrow> strs c' k = strs c k)"

text \<open>A configuration with four history entries.\<close>

definition example_history_conf :: conf where
  "example_history_conf =
     \<lparr>ints = (\<lambda>k. 0)(key_history_max := 4),
      strs = (\<lambda>k. None)(key_history 0 := Some ''a'', key_history 1 := Some ''b'',
                          key_history 2 := Some ''c'', key_history 3 := Some ''b'')\<rparr>"

text \<open>
  A configuration with three history entries, the third equal to the serialization
  \<open>b\<close>, and the given \<open>history_max\<close>.
\<close>

definition stale_history_conf :: "int \<Rightarrow> conf" where
  "stale_history_conf n =
     \<lparr>ints = (\<lambda>k. 0)(key_history_max := n),
      strs = (\<lambda>k. None)(key_history 0 := Some ''a'', key_history 1 := Some ''c'',
                          key_history 2 := Some ''b'')\<rparr>"

section \<open>Properties\<close>

subsection \<open>Decimal numbers and key names\<close>

lemma digit_char_inj:
  "a < 10 \<Longrightarrow> b < 10 \<Longrightarrow> digit_char a = digit_char b \<longleftrightarrow> a = b"
proof -
  assume a: "a < 10" and b: "b < 10"
  have d: "distinct ''0123456789''" by simp
  have l: "length ''0123456789'' = 10" by simp
  show ?thesis
    unfolding digit_char_def using nth_eq_iff_index_eq [OF d, of a b] a b l by simp
qed

lemma dec_nat_small: "n < 10 \<Longrightarrow> dec_nat n = [digit_char n]"
  by (subst dec_nat.simps) simp

lemma dec_nat_big: "\<not> n < 10 \<Longrightarrow> dec_nat n = dec_nat (n div 10) @ [digit_char (n mod 10)]"
  by (subst dec_nat.simps) simp

lemma dec_nat_not_Nil: "dec_nat n \<noteq> []"
  by (subst dec_nat.simps) simp

lemma dec_nat_inj: "dec_nat n = dec_nat m \<Longrightarrow> n = m"
proof (induction n arbitrary: m rule: dec_nat.induct)
  case (1 n)
  show ?case
  proof (cases "n < 10")
    case n: True
    show ?thesis
    proof (cases "m < 10")
      case True
      with n "1.prems" show ?thesis
        by (simp add: dec_nat_small digit_char_inj)
    next
      case False
      with n "1.prems" dec_nat_not_Nil [of "m div 10"] show ?thesis
        by (auto simp: dec_nat_small dec_nat_big)
    qed
  next
    case n: False
    show ?thesis
    proof (cases "m < 10")
      case True
      with n "1.prems" dec_nat_not_Nil [of "n div 10"] show ?thesis
        by (auto simp: dec_nat_small dec_nat_big)
    next
      case False
      with n "1.prems" have e: "dec_nat (n div 10) = dec_nat (m div 10)"
        and d: "digit_char (n mod 10) = digit_char (m mod 10)"
        by (simp_all add: dec_nat_big)
      from "1.IH" [OF n e] have "n div 10 = m div 10" .
      moreover from d have "n mod 10 = m mod 10"
        by (simp add: digit_char_inj)
      ultimately show ?thesis
        by (metis div_mult_mod_eq)
    qed
  qed
qed

lemma dec_nat_eq_iff [simp]: "dec_nat n = dec_nat m \<longleftrightarrow> n = m"
  using dec_nat_inj by blast

lemma hd_dec_nat_digit: "hd (dec_nat n) \<in> set ''0123456789''"
proof (induction n rule: dec_nat.induct)
  case (1 n)
  show ?case
  proof (cases "n < 10")
    case True
    then have "digit_char n \<in> set ''0123456789''"
      unfolding digit_char_def by (intro nth_mem) simp
    with True show ?thesis by (simp add: dec_nat_small)
  next
    case False
    with "1.IH" show ?thesis
      by (simp add: dec_nat_big dec_nat_not_Nil)
  qed
qed

lemma dec_nat_not_minus: "dec_nat n \<noteq> CHR ''-'' # s"
proof
  assume "dec_nat n = CHR ''-'' # s"
  then have "hd (dec_nat n) = CHR ''-''" by simp
  with hd_dec_nat_digit [of n] show False by auto
qed

lemma fmt_d_eq_iff [simp]: "fmt_d i = fmt_d j \<longleftrightarrow> i = j"
proof
  assume e: "fmt_d i = fmt_d j"
  show "i = j"
  proof (cases "i < 0"; cases "j < 0")
    assume "i < 0" "j < 0"
    with e have "nat (- i) = nat (- j)" by (simp add: fmt_d_def)
    with \<open>i < 0\<close> \<open>j < 0\<close> show ?thesis by simp
  next
    assume "i < 0" "\<not> j < 0"
    with e dec_nat_not_minus [of "nat j" "dec_nat (nat (- i))"] show ?thesis
      by (simp add: fmt_d_def)
  next
    assume "\<not> i < 0" "j < 0"
    with e dec_nat_not_minus [of "nat i" "dec_nat (nat (- j))"] show ?thesis
      by (simp add: fmt_d_def)
  next
    assume "\<not> i < 0" "\<not> j < 0"
    with e show ?thesis by (simp add: fmt_d_def)
  qed
qed simp

lemma fmt_u_fmt_d: "fmt_u n = fmt_d (int n)"
  by (simp add: fmt_u_def fmt_d_def)

lemma fmt_d_0: "fmt_d 0 = ''0''"
  by (simp add: fmt_d_def dec_nat_small digit_char_def)

lemma key_u_eq [simp]:
  "key_item_u n = key_item (int n)"
  "key_mode_u n = key_mode (int n)"
  "key_off_u n = key_off (int n)"
  "key_string_u n = key_string (int n)"
  by (simp_all add: key_item_u_def key_mode_u_def key_off_u_def key_string_u_def
      key_item_def key_mode_def key_off_def key_string_def fmt_u_fmt_d)

lemma key_history0_eq [simp]: "key_history0 = key_history 0"
  by (simp add: key_history0_def key_history_def confname_def fmt_d_0)

lemma key_inj [simp]:
  "key_item i = key_item j \<longleftrightarrow> i = j"
  "key_mode i = key_mode j \<longleftrightarrow> i = j"
  "key_off i = key_off j \<longleftrightarrow> i = j"
  "key_string i = key_string j \<longleftrightarrow> i = j"
  "key_history i = key_history j \<longleftrightarrow> i = j"
  "key_nb_use i = key_nb_use j \<longleftrightarrow> i = j"
  by (simp_all add: key_item_def key_mode_def key_off_def key_string_def key_history_def
      key_nb_use_def confname_def)

lemma int_keys_distinct [simp]:
  "key_item i \<noteq> key_mode j" 
  "key_item i \<noteq> key_off j" 
  "key_item i \<noteq> key_nb_use j" 
  "key_item i \<noteq> key_num_rules" 
  "key_item i \<noteq> key_order" 
  "key_item i \<noteq> key_history_max" 
  "key_mode i \<noteq> key_item j" 
  "key_mode i \<noteq> key_off j" 
  "key_mode i \<noteq> key_nb_use j" 
  "key_mode i \<noteq> key_num_rules" 
  "key_mode i \<noteq> key_order" 
  "key_mode i \<noteq> key_history_max" 
  "key_off i \<noteq> key_item j" 
  "key_off i \<noteq> key_mode j" 
  "key_off i \<noteq> key_nb_use j" 
  "key_off i \<noteq> key_num_rules" 
  "key_off i \<noteq> key_order" 
  "key_off i \<noteq> key_history_max" 
  "key_nb_use i \<noteq> key_item j" 
  "key_nb_use i \<noteq> key_mode j" 
  "key_nb_use i \<noteq> key_off j" 
  "key_nb_use i \<noteq> key_num_rules" 
  "key_nb_use i \<noteq> key_order" 
  "key_nb_use i \<noteq> key_history_max" 
  "key_num_rules \<noteq> key_item j" 
  "key_num_rules \<noteq> key_mode j" 
  "key_num_rules \<noteq> key_off j" 
  "key_num_rules \<noteq> key_nb_use j" 
  "key_num_rules \<noteq> key_order" 
  "key_num_rules \<noteq> key_history_max" 
  "key_order \<noteq> key_item j" 
  "key_order \<noteq> key_mode j" 
  "key_order \<noteq> key_off j" 
  "key_order \<noteq> key_nb_use j" 
  "key_order \<noteq> key_num_rules" 
  "key_order \<noteq> key_history_max" 
  "key_history_max \<noteq> key_item j" 
  "key_history_max \<noteq> key_mode j" 
  "key_history_max \<noteq> key_off j" 
  "key_history_max \<noteq> key_nb_use j" 
  "key_history_max \<noteq> key_num_rules" 
  "key_history_max \<noteq> key_order"
  by (simp_all add: key_item_def key_mode_def key_off_def key_nb_use_def key_num_rules_def
      key_order_def key_history_max_def confname_def)

lemma str_keys_distinct [simp]:
  "key_string i \<noteq> key_history j"
  "key_history i \<noteq> key_string j"
  by (simp_all add: key_string_def key_history_def confname_def)

subsection \<open>Reading and writing the configuration\<close>

lemma get_int_set_int [simp]:
  "dt_conf_get_int (dt_conf_set_int k v c) k' = (if k' = k then v else dt_conf_get_int c k')"
  by (simp add: dt_conf_get_int_def dt_conf_set_int_def)

lemma get_int_set_string [simp]:
  "dt_conf_get_int (dt_conf_set_string k v c) k' = dt_conf_get_int c k'"
  by (simp add: dt_conf_get_int_def dt_conf_set_string_def)

lemma get_string_set_string [simp]:
  "dt_conf_get_string (dt_conf_set_string k v c) k' = (if k' = k then v else dt_conf_get_string c k')"
  by (simp add: dt_conf_get_string_def dt_conf_set_string_def)

lemma get_string_set_int [simp]:
  "dt_conf_get_string (dt_conf_set_int k v c) k' = dt_conf_get_string c k'"
  by (simp add: dt_conf_get_string_def dt_conf_set_int_def)

subsection \<open>Splitting\<close>

lemma split_at_no_delim:
  "d \<notin> set s \<Longrightarrow> split_at d s = [s]"
proof -
  assume a: "d \<notin> set s"
  have 1: "dropWhile (\<lambda>c. c \<noteq> d) s = []"
    using a by (auto simp: dropWhile_eq_Nil_conv)
  have 2: "takeWhile (\<lambda>c. c \<noteq> d) s = s"
    using a by (auto simp: takeWhile_eq_all_conv)
  show ?thesis
    by (subst split_at.simps) (simp add: 1 2)
qed

lemma split_at_append:
  "d \<notin> set a \<Longrightarrow> split_at d (a @ d # b) = a # split_at d b"
proof -
  assume a: "d \<notin> set a"
  have 1: "dropWhile (\<lambda>c. c \<noteq> d) (a @ d # b) = d # b"
    using a by (subst dropWhile_append2) auto
  have 2: "takeWhile (\<lambda>c. c \<noteq> d) (a @ d # b) = a"
    using a by (subst takeWhile_append2) auto
  show ?thesis
    by (subst split_at.simps) (simp add: 1 2)
qed

lemma length_split_at:
  "length (split_at d s) = Suc (count_list s d)"
proof (induction s rule: length_induct)
  case (1 s)
  show ?case
  proof (cases "d \<in> set s")
    case False
    then show ?thesis
      by (simp add: split_at_no_delim count_list_0_iff)
  next
    case True
    then obtain a b where s: "s = a @ d # b" and a: "d \<notin> set a"
      by (meson split_list_first)
    have "length b < length s"
      by (simp add: s)
    with "1.IH" have "length (split_at d b) = Suc (count_list b d)"
      by blast
    moreover from a have "count_list a d = 0"
      by (simp add: count_list_0_iff)
    ultimately show ?thesis
      by (simp add: s split_at_append a)
  qed
qed

lemma length_g_strsplit:
  "length (g_strsplit s d) = (if s = [] then 0 else Suc (count_list s d))"
  by (simp add: g_strsplit_def length_split_at)

subsection \<open>C8: the raw text of a file name rule decodes to its two parts\<close>

text \<open>
  Claim C8.  For a name and an extension without \<open>'/'\<close>, the text \<open>name/ext\<close> composed
  as \<open>_filename_changed\<close> does is decoded by \<open>_filename_decode\<close> into exactly that name
  and that extension.  A text that does not have exactly one \<open>'/'\<close> (so the number of
  its parts is not 2), the empty text and the NULL pointer leave both output arguments
  as they were.
\<close>

theorem filename_decode_roundtrip:
  "(CHR ''/'' \<notin> set name \<and> CHR ''/'' \<notin> set ext \<longrightarrow>
      filename_decode (Some (filename_raw_text name ext)) out = (Some name, Some ext))
   \<and> (length (g_strsplit t (CHR ''/'')) \<noteq> 2 \<longrightarrow> filename_decode (Some t) out = out)
   \<and> (count_list t (CHR ''/'') \<noteq> 1 \<longrightarrow> filename_decode (Some t) out = out)
   \<and> filename_decode (Some []) out = out
   \<and> filename_decode None out = out"
proof (intro conjI impI)
  assume a: "CHR ''/'' \<notin> set name \<and> CHR ''/'' \<notin> set ext"
  then have "split_at (CHR ''/'') (name @ CHR ''/'' # ext) = [name, ext]"
    by (simp add: split_at_append split_at_no_delim)
  then show "filename_decode (Some (filename_raw_text name ext)) out = (Some name, Some ext)"
    by (simp add: filename_decode_def filename_raw_text_def g_strsplit_def)
next
  assume "length (g_strsplit t (CHR ''/'')) \<noteq> 2"
  then show "filename_decode (Some t) out = out"
    by (simp add: filename_decode_def)
next
  assume "count_list t (CHR ''/'') \<noteq> 1"
  then have "length (g_strsplit t (CHR ''/'')) \<noteq> 2"
    by (simp add: length_g_strsplit)
  then show "filename_decode (Some t) out = out"
    by (simp add: filename_decode_def)
next
  show "filename_decode (Some []) out = out"
    by (simp add: filename_decode_def)
next
  show "filename_decode None out = out"
    by (simp add: filename_decode_def)
qed

theorem filename_decode_roundtrip_witness:
  "filename_decode (Some ''img_01/jpg'') (None, None) = (Some ''img_01'', Some ''jpg'')
   \<and> filename_decode (Some ''a/b/c'') (Some ''n'', Some ''e'') = (Some ''n'', Some ''e'')
   \<and> filename_decode (Some ''abc'') (Some ''n'', Some ''e'') = (Some ''n'', Some ''e'')"
  using filename_decode_roundtrip [of "''img_01''" "''jpg''" "(None, None)" "''a/b/c''"]
    filename_decode_roundtrip [of "''x''" "''y''" "(Some ''n'', Some ''e'')" "''a/b/c''"]
    filename_decode_roundtrip [of "''x''" "''y''" "(Some ''n'', Some ''e'')" "''abc''"]
  by (simp add: filename_raw_text_def)

subsection \<open>C1: the parameter block survives the configuration\<close>

lemma update_loop_props:
  "0 \<le> i \<Longrightarrow>
   length (rule (filters_update_params_loop c active i p)) = length (rule p)
   \<and> rules (filters_update_params_loop c active i p) = rules p
   \<and> (\<forall>j < length (rule p).
        rule (filters_update_params_loop c active i p) ! j =
          (if i \<le> int j \<and> int j \<le> active then read_params_rule c (int j) (rule p ! j)
           else rule p ! j))"
proof (induction c active i p rule: filters_update_params_loop.induct)
  case (1 c active i p)
  show ?case
  proof (cases "i \<le> active")
    case False
    then show ?thesis
      by (auto simp: filters_update_params_loop.simps)
  next
    case True
    let ?p = "p\<lparr>rule := (rule p)[nat i := read_params_rule c i (rule p ! nat i)]\<rparr>"
    from "1.prems" have "0 \<le> i + 1" by simp
    from "1.IH" [OF True this]
    have ih: "length (rule (filters_update_params_loop c active (i + 1) ?p)) = length (rule ?p)"
      "rules (filters_update_params_loop c active (i + 1) ?p) = rules ?p"
      "\<forall>j < length (rule ?p).
        rule (filters_update_params_loop c active (i + 1) ?p) ! j =
          (if i + 1 \<le> int j \<and> int j \<le> active then read_params_rule c (int j) (rule ?p ! j)
           else rule ?p ! j)"
      by blast+
    have unf: "filters_update_params_loop c active i p = filters_update_params_loop c active (i + 1) ?p"
      using True by (subst filters_update_params_loop.simps) simp
    show ?thesis
    proof (intro conjI allI impI)
      show "length (rule (filters_update_params_loop c active i p)) = length (rule p)"
        using ih(1) by (simp add: unf)
      show "rules (filters_update_params_loop c active i p) = rules p"
        using ih(2) by (simp add: unf)
    next
      fix j assume j: "j < length (rule p)"
      then have "rule (filters_update_params_loop c active (i + 1) ?p) ! j =
          (if i + 1 \<le> int j \<and> int j \<le> active then read_params_rule c (int j) (rule ?p ! j)
           else rule ?p ! j)"
        using ih(3) by simp
      then show "rule (filters_update_params_loop c active i p) ! j =
          (if i \<le> int j \<and> int j \<le> active then read_params_rule c (int j) (rule p ! j)
           else rule p ! j)"
        using "1.prems" True j
        by (cases "int j = i") (auto simp: unf nth_list_update)
    qed
  qed
qed

lemma params_of_conf_props:
  "length (rule (params_of_conf c)) = MAX_RULES"
  "rules (params_of_conf c) = word_of_int (CLAMP (dt_conf_get_int c key_num_rules - 1) 0 (int MAX_RULES - 1) + 1)"
  "j < MAX_RULES \<Longrightarrow> rule (params_of_conf c) ! j =
     (if int j \<le> CLAMP (dt_conf_get_int c key_num_rules - 1) 0 (int MAX_RULES - 1)
      then read_params_rule c (int j) zero_params_rule else zero_params_rule)"
  using update_loop_props [of 0 c "CLAMP (dt_conf_get_int c key_num_rules - 1) 0 (int MAX_RULES - 1)" zero_params]
  by (simp_all add: params_of_conf_def Let_def zero_params_def)

lemma sint_small: "unat (w::32 word) \<le> 10 \<Longrightarrow> sint w = uint w"
proof -
  assume a: "unat w \<le> 10"
  have "uint w = int (unat w)" by simp
  with a have b: "uint w \<le> 10" by linarith
  have "- (2 ^ 31) \<le> (0::int)" by simp
  also have "0 \<le> uint w" by simp
  finally have lo: "- (2 ^ 31) \<le> uint w" .
  have "uint w < 2 ^ 31" using b by simp
  with lo have "signed_take_bit 31 (uint w) = uint w"
    by (rule signed_take_bit_int_eq_self)
  then show ?thesis
    by (simp add: sint_uint)
qed

lemma set_params_rule_get:
  "dt_conf_get_int (set_params_rule r i c) (key_item j) =
     (if j = int i then uint (item r) else dt_conf_get_int c (key_item j))"
  "dt_conf_get_int (set_params_rule r i c) (key_mode j) =
     (if j = int i then uint (mode r) else dt_conf_get_int c (key_mode j))"
  "dt_conf_get_int (set_params_rule r i c) (key_off j) =
     (if j = int i then uint (off r) else dt_conf_get_int c (key_off j))"
  "dt_conf_get_string (set_params_rule r i c) (key_string j) =
     (if j = int i then Some (string r) else dt_conf_get_string c (key_string j))"
  by (simp_all add: set_params_rule_def)

lemma set_params_loop_props:
  "unat (rules p) \<le> MAX_RULES \<Longrightarrow>
   \<exists>c'. set_params_loop p i c = Inr c'
     \<and> (\<forall>j. dt_conf_get_int c' (key_item j) =
            (if int i \<le> j \<and> j < uint (rules p) then uint (item (rule p ! nat j))
             else dt_conf_get_int c (key_item j)))
     \<and> (\<forall>j. dt_conf_get_int c' (key_mode j) =
            (if int i \<le> j \<and> j < uint (rules p) then uint (mode (rule p ! nat j))
             else dt_conf_get_int c (key_mode j)))
     \<and> (\<forall>j. dt_conf_get_int c' (key_off j) =
            (if int i \<le> j \<and> j < uint (rules p) then uint (off (rule p ! nat j))
             else dt_conf_get_int c (key_off j)))
     \<and> (\<forall>j. dt_conf_get_string c' (key_string j) =
            (if int i \<le> j \<and> j < uint (rules p) then Some (string (rule p ! nat j))
             else dt_conf_get_string c (key_string j)))"
proof (induction p i c rule: set_params_loop.induct)
  case (1 p i c)
  show ?case
  proof (cases "i < unat (rules p)")
    case False
    have "uint (rules p) = int (unat (rules p))" by simp
    with False have "uint (rules p) \<le> int i" by linarith
    with False show ?thesis
      by (auto simp: set_params_loop.simps)
  next
    case True
    with "1.prems" have m: "i < MAX_RULES" by simp
    have "uint (rules p) = int (unat (rules p))" by simp
    with True have ti: "int i < uint (rules p)" by linarith
    let ?c = "set_params_rule (rule p ! i) i c"
    from "1.IH" [OF True m "1.prems"] obtain c' where
      r: "set_params_loop p (i + 1) ?c = Inr c'"
      and a: "\<And>j. dt_conf_get_int c' (key_item j) =
            (if int (i + 1) \<le> j \<and> j < uint (rules p) then uint (item (rule p ! nat j))
             else dt_conf_get_int ?c (key_item j))"
      and b: "\<And>j. dt_conf_get_int c' (key_mode j) =
            (if int (i + 1) \<le> j \<and> j < uint (rules p) then uint (mode (rule p ! nat j))
             else dt_conf_get_int ?c (key_mode j))"
      and c: "\<And>j. dt_conf_get_int c' (key_off j) =
            (if int (i + 1) \<le> j \<and> j < uint (rules p) then uint (off (rule p ! nat j))
             else dt_conf_get_int ?c (key_off j))"
      and d: "\<And>j. dt_conf_get_string c' (key_string j) =
            (if int (i + 1) \<le> j \<and> j < uint (rules p) then Some (string (rule p ! nat j))
             else dt_conf_get_string ?c (key_string j))"
      by blast
    have unf: "set_params_loop p i c = Inr c'"
      using True m r by (subst set_params_loop.simps) simp
    show ?thesis
    proof (intro exI conjI allI)
      show "set_params_loop p i c = Inr c'" by (rule unf)
    next
      fix j show "dt_conf_get_int c' (key_item j) =
            (if int i \<le> j \<and> j < uint (rules p) then uint (item (rule p ! nat j))
             else dt_conf_get_int c (key_item j))"
        using ti by (auto simp: a set_params_rule_get)
    next
      fix j show "dt_conf_get_int c' (key_mode j) =
            (if int i \<le> j \<and> j < uint (rules p) then uint (mode (rule p ! nat j))
             else dt_conf_get_int c (key_mode j))"
        using ti by (auto simp: b set_params_rule_get)
    next
      fix j show "dt_conf_get_int c' (key_off j) =
            (if int i \<le> j \<and> j < uint (rules p) then uint (off (rule p ! nat j))
             else dt_conf_get_int c (key_off j))"
        using ti by (auto simp: c set_params_rule_get)
    next
      fix j show "dt_conf_get_string c' (key_string j) =
            (if int i \<le> j \<and> j < uint (rules p) then Some (string (rule p ! nat j))
             else dt_conf_get_string c (key_string j))"
        using ti by (auto simp: d set_params_rule_get)
    qed
  qed
qed

lemma conf_filters_gui_update [simp]: "conf (filters_gui_update s) = conf s"
  by (simp add: filters_gui_update_def Let_def)

lemma conf_filters_update_params [simp]: "conf (filters_update_params s) = conf s"
  by (simp add: filters_update_params_def)

lemma d_params_filters_gui_update [simp]: "d_params (filters_gui_update s) = d_params s"
  by (simp add: filters_gui_update_def Let_def)

lemma get_params_conf: "fst (get_params s) = params_of_conf (conf s)"
  by (simp add: get_params_def filters_update_params_def)

lemma read_params_rule_fields:
  "item (read_params_rule c i r) = word_of_int (dt_conf_get_int c (key_item i))"
  "mode (read_params_rule c i r) = word_of_int (dt_conf_get_int c (key_mode i))"
  "off (read_params_rule c i r) = word_of_int (dt_conf_get_int c (key_off i))"
  "string (read_params_rule c i r) =
     (case dt_conf_get_string c (key_string i) of None \<Rightarrow> string r
      | Some s \<Rightarrow> g_strlcpy s PARAM_STRING_SIZE)"
  by (simp_all add: read_params_rule_def split: option.splits)

text \<open>
  Claim C1.  For a parameter block \<open>p\<close> with \<open>1 \<le> p.rules \<le> 10\<close>, \<open>set_params\<close>
  succeeds, and \<open>get_params\<close> called afterwards returns a block with the same number
  of rules, whose rules below \<open>p.rules\<close> have the item, mode, off and string of \<open>p\<close>
  (the string as far as the buffer of \<open>PARAM_STRING_SIZE\<close> bytes holds it, so unchanged
  when it fits), and whose other rules are zeroed.
\<close>

theorem set_get_params_roundtrip:
  assumes lo: "1 \<le> unat (rules p)" and hi: "unat (rules p) \<le> MAX_RULES"
  shows "\<exists>s'. set_params p s = Inr s'
     \<and> rules (fst (get_params s')) = rules p
     \<and> length (rule (fst (get_params s'))) = MAX_RULES
     \<and> (\<forall>i < unat (rules p).
           item (rule (fst (get_params s')) ! i) = item (rule p ! i)
         \<and> mode (rule (fst (get_params s')) ! i) = mode (rule p ! i)
         \<and> off (rule (fst (get_params s')) ! i) = off (rule p ! i)
         \<and> string (rule (fst (get_params s')) ! i) = g_strlcpy (string (rule p ! i)) PARAM_STRING_SIZE
         \<and> (length (string (rule p ! i)) < PARAM_STRING_SIZE \<longrightarrow>
              string (rule (fst (get_params s')) ! i) = string (rule p ! i)))
     \<and> (\<forall>i. unat (rules p) \<le> i \<and> i < MAX_RULES \<longrightarrow>
           rule (fst (get_params s')) ! i = zero_params_rule)"
proof -
  from set_params_loop_props [OF hi, of 0 "conf s"] obtain c' where
    r: "set_params_loop p 0 (conf s) = Inr c'"
    and a: "\<And>j. dt_conf_get_int c' (key_item j) =
            (if 0 \<le> j \<and> j < uint (rules p) then uint (item (rule p ! nat j))
             else dt_conf_get_int (conf s) (key_item j))"
    and b: "\<And>j. dt_conf_get_int c' (key_mode j) =
            (if 0 \<le> j \<and> j < uint (rules p) then uint (mode (rule p ! nat j))
             else dt_conf_get_int (conf s) (key_mode j))"
    and c: "\<And>j. dt_conf_get_int c' (key_off j) =
            (if 0 \<le> j \<and> j < uint (rules p) then uint (off (rule p ! nat j))
             else dt_conf_get_int (conf s) (key_off j))"
    and d: "\<And>j. dt_conf_get_string c' (key_string j) =
            (if 0 \<le> j \<and> j < uint (rules p) then Some (string (rule p ! nat j))
             else dt_conf_get_string (conf s) (key_string j))"
    by auto
  define c2 where "c2 = dt_conf_set_int key_num_rules (sint (rules p)) c'"
  define s' where "s' = filters_gui_update (filters_update_params (s\<lparr>conf := c2\<rparr>))"
  have sp: "set_params p s = Inr s'"
    by (simp add: set_params_def r s'_def c2_def)
  have gp: "fst (get_params s') = params_of_conf c2"
    by (simp add: get_params_conf s'_def)
  have n10: "unat (rules p) \<le> 10"
    using hi by (simp add: MAX_RULES_def)
  have sint_eq: "sint (rules p) = int (unat (rules p))"
    using sint_small [OF n10] by simp
  have nr: "dt_conf_get_int c2 key_num_rules = int (unat (rules p))"
    by (simp add: c2_def sint_eq)
  have un: "uint (rules p) = int (unat (rules p))" by simp
  have u1: "1 \<le> uint (rules p)" using lo un by linarith
  have u2: "uint (rules p) \<le> int MAX_RULES" using hi un by linarith
  have clamp: "CLAMP (dt_conf_get_int c2 key_num_rules - 1) 0 (int MAX_RULES - 1) = uint (rules p) - 1"
    using u1 u2 by (simp add: nr CLAMP_def)
  have rules_eq: "rules (params_of_conf c2) = rules p"
    by (simp add: params_of_conf_props(2) clamp)
  have len: "length (rule (params_of_conf c2)) = MAX_RULES"
    by (rule params_of_conf_props(1))
  have nth: "\<And>j. j < MAX_RULES \<Longrightarrow> rule (params_of_conf c2) ! j =
     (if j < unat (rules p) then read_params_rule c2 (int j) zero_params_rule else zero_params_rule)"
  proof -
    fix j assume j: "j < MAX_RULES"
    have "int j \<le> uint (rules p) - 1 \<longleftrightarrow> j < unat (rules p)"
      using un by linarith
    then show "rule (params_of_conf c2) ! j =
     (if j < unat (rules p) then read_params_rule c2 (int j) zero_params_rule else zero_params_rule)"
      using params_of_conf_props(3) [OF j, of c2] by (simp add: clamp)
  qed
  show ?thesis
  proof (intro exI [of _ s'] conjI allI impI)
    show "set_params p s = Inr s'" by (rule sp)
    show "rules (fst (get_params s')) = rules p" by (simp add: gp rules_eq)
    show "length (rule (fst (get_params s'))) = MAX_RULES" by (simp add: gp len)
  next
    fix i assume i: "i < unat (rules p)"
    with hi have im: "i < MAX_RULES" by simp
    from i un have iu: "int i < uint (rules p)" by linarith
    have e: "rule (fst (get_params s')) ! i = read_params_rule c2 (int i) zero_params_rule"
      using nth [OF im] i by (simp add: gp)
    show "item (rule (fst (get_params s')) ! i) = item (rule p ! i)"
      using iu by (simp add: e read_params_rule_fields c2_def a)
    show "mode (rule (fst (get_params s')) ! i) = mode (rule p ! i)"
      using iu by (simp add: e read_params_rule_fields c2_def b)
    show "off (rule (fst (get_params s')) ! i) = off (rule p ! i)"
      using iu by (simp add: e read_params_rule_fields c2_def c)
    show s: "string (rule (fst (get_params s')) ! i) = g_strlcpy (string (rule p ! i)) PARAM_STRING_SIZE"
      using iu by (simp add: e read_params_rule_fields c2_def d)
    assume "length (string (rule p ! i)) < PARAM_STRING_SIZE"
    then show "string (rule (fst (get_params s')) ! i) = string (rule p ! i)"
      by (simp add: s g_strlcpy_def)
  next
    fix i assume "unat (rules p) \<le> i \<and> i < MAX_RULES"
    then show "rule (fst (get_params s')) ! i = zero_params_rule"
      using nth [of i] by (simp add: gp)
  qed
qed

theorem set_get_params_roundtrip_witness:
  "\<exists>s'. set_params example_params (gui_init (conf_two_rules None) None) = Inr s'
     \<and> rules (fst (get_params s')) = 2
     \<and> item (rule (fst (get_params s')) ! 0) = 3
     \<and> string (rule (fst (get_params s')) ! 0) = ''>=2''
     \<and> mode (rule (fst (get_params s')) ! 1) = 1
     \<and> off (rule (fst (get_params s')) ! 1) = 1
     \<and> string (rule (fst (get_params s')) ! 1) = ''red''
     \<and> rule (fst (get_params s')) ! 2 = zero_params_rule"
proof -
  have lo: "1 \<le> unat (rules example_params)" and hi: "unat (rules example_params) \<le> MAX_RULES"
    by (simp_all add: example_params_def MAX_RULES_def)
  from set_get_params_roundtrip [OF lo hi, of "gui_init (conf_two_rules None) None"]
  obtain s' where sp: "set_params example_params (gui_init (conf_two_rules None) None) = Inr s'"
    and r: "rules (fst (get_params s')) = rules example_params"
    and a: "\<forall>i < unat (rules example_params).
           item (rule (fst (get_params s')) ! i) = item (rule example_params ! i)
         \<and> mode (rule (fst (get_params s')) ! i) = mode (rule example_params ! i)
         \<and> off (rule (fst (get_params s')) ! i) = off (rule example_params ! i)
         \<and> string (rule (fst (get_params s')) ! i)
             = g_strlcpy (string (rule example_params ! i)) PARAM_STRING_SIZE
         \<and> (length (string (rule example_params ! i)) < PARAM_STRING_SIZE \<longrightarrow>
              string (rule (fst (get_params s')) ! i) = string (rule example_params ! i))"
    and z: "\<forall>i. unat (rules example_params) \<le> i \<and> i < MAX_RULES \<longrightarrow>
           rule (fst (get_params s')) ! i = zero_params_rule"
    by blast
  have n: "unat (rules example_params) = 2"
    by (simp add: example_params_def)
  from a [rule_format, of 0] a [rule_format, of 1] z [rule_format, of 2] r sp
  show ?thesis
    by (simp add: n) (simp add: example_params_def PARAM_STRING_SIZE_def MAX_RULES_def g_strlcpy_def)
qed

subsection \<open>C2: the number of rules stays in range\<close>

lemma CLAMP_bounds: "low \<le> high \<Longrightarrow> low \<le> CLAMP x low high \<and> CLAMP x low high \<le> high"
  by (simp add: CLAMP_def)

lemma nb_rules_filters_gui_update:
  "nb_rules (filters_gui_update s) = CLAMP (dt_conf_get_int (conf s) key_num_rules) 0 (int MAX_RULES)"
  by (simp add: filters_gui_update_def Let_def)

lemma nb_rules_gui_update_bounds:
  "0 \<le> nb_rules (filters_gui_update s) \<and> nb_rules (filters_gui_update s) \<le> int MAX_RULES"
  using CLAMP_bounds [of 0 "int MAX_RULES"] by (simp add: nb_rules_filters_gui_update)

lemma nb_rules_filters_update_params [simp]: "nb_rules (filters_update_params s) = nb_rules s"
  by (simp add: filters_update_params_def)

lemma nb_rules_conf_update_rule [simp]: "nb_rules (conf_update_rule h k s) = nb_rules s"
  by (simp add: conf_update_rule_def Let_def)

lemma nb_rules_event_rule_changed [simp]: "nb_rules (event_rule_changed h k s) = nb_rules s"
  by (simp add: event_rule_changed_def)

lemma nb_rules_rule_set_raw_text [simp]: "nb_rules (rule_set_raw_text h k t sg s) = nb_rules s"
  by (simp add: rule_set_raw_text_def Let_def)

lemma nb_rules_raw_text_changed [simp]: "nb_rules (raw_text_changed h k t s) = nb_rules s"
  by (simp add: raw_text_changed_def)

lemma nb_rules_filename_changed [simp]: "nb_rules (filename_changed h k n e s) = nb_rules s"
  by (simp add: filename_changed_def)

lemma nb_rules_event_rule_change_type [simp]: "nb_rules (event_rule_change_type h k m s) = nb_rules s"
  by (simp add: event_rule_change_type_def Let_def)

lemma nb_rules_gui_reset [simp]: "nb_rules (gui_reset s) = nb_rules s"
  by (simp add: gui_reset_def)

lemma nb_rules_dt_collection_updated:
  "dt_collection_updated w s = Inr s' \<Longrightarrow> nb_rules s' = nb_rules s"
  by (auto simp: dt_collection_updated_def split: if_splits sum.splits)

lemma nb_rules_set_params:
  "set_params p s = Inr s' \<Longrightarrow> 0 \<le> nb_rules s' \<and> nb_rules s' \<le> int MAX_RULES"
  using nb_rules_gui_update_bounds by (auto simp: set_params_def split: sum.splits)

lemma nb_rules_event_rule_close:
  "0 \<le> nb_rules s \<and> nb_rules s \<le> int MAX_RULES \<Longrightarrow>
   0 \<le> nb_rules (event_rule_close k s) \<and> nb_rules (event_rule_close k s) \<le> int MAX_RULES"
  using nb_rules_gui_update_bounds by (simp add: event_rule_close_def)

lemma nb_rules_event_append_rule:
  "0 \<le> nb_rules s \<and> nb_rules s \<le> int MAX_RULES \<Longrightarrow>
   0 \<le> nb_rules (event_append_rule h m s) \<and> nb_rules (event_append_rule h m s) \<le> int MAX_RULES"
  using nb_rules_gui_update_bounds by (simp add: event_append_rule_def Let_def)

lemma reachable_nb_rules:
  "reachable s \<Longrightarrow> 0 \<le> nb_rules s \<and> nb_rules s \<le> int MAX_RULES"
proof (induction rule: reachable.induct)
  case (r_init c where_ext)
  show ?case unfolding gui_init_def by (rule nb_rules_gui_update_bounds)
next
  case (r_gui_update s)
  show ?case by (rule nb_rules_gui_update_bounds)
next
  case (r_set_params s p s')
  then show ?case using nb_rules_set_params by blast
next
  case (r_get_params s)
  then show ?case by (simp add: get_params_def)
next
  case (r_rule_close s k)
  then show ?case using nb_rules_event_rule_close by blast
next
  case (r_append s h m)
  then show ?case using nb_rules_event_append_rule by blast
next
  case (r_updated s where_ext s')
  then show ?case using nb_rules_dt_collection_updated by metis
qed simp_all

text \<open>
  Claim C2.  In every state the module reaches, \<open>nb_rules\<close> lies between 0 and
  \<open>MAX_RULES\<close>.  \<open>gui_init\<close> sets it to 0 before it updates the widgets,
  \<open>_event_append_rule\<close> changes nothing when there are \<open>MAX_RULES\<close> rules,
  \<open>_event_rule_close\<close> changes nothing when there is no rule, and
  \<open>_filters_gui_update\<close> sets it to the stored number of rules clamped to that range.
\<close>

theorem nb_rules_bounded:
  "(reachable s \<longrightarrow> 0 \<le> nb_rules s \<and> nb_rules s \<le> int MAX_RULES)
   \<and> nb_rules (gui_init_alloc c where_ext) = 0
   \<and> (nb_rules s \<ge> int MAX_RULES \<longrightarrow> event_append_rule h m s = s)
   \<and> (nb_rules s \<le> 0 \<longrightarrow> event_rule_close k s = s)
   \<and> nb_rules (filters_gui_update s) = CLAMP (dt_conf_get_int (conf s) key_num_rules) 0 (int MAX_RULES)
   \<and> 0 \<le> nb_rules (filters_gui_update s) \<and> nb_rules (filters_gui_update s) \<le> int MAX_RULES"
proof (intro conjI impI)
  assume "reachable s"
  then show "0 \<le> nb_rules s" "nb_rules s \<le> int MAX_RULES"
    using reachable_nb_rules by blast+
next
  show "nb_rules (gui_init_alloc c where_ext) = 0"
    by (simp add: gui_init_alloc_def)
next
  assume "int MAX_RULES \<le> nb_rules s"
  then show "event_append_rule h m s = s"
    by (simp add: event_append_rule_def)
next
  assume "nb_rules s \<le> 0"
  then show "event_rule_close k s = s"
    by (simp add: event_rule_close_def)
next
  show "nb_rules (filters_gui_update s) = CLAMP (dt_conf_get_int (conf s) key_num_rules) 0 (int MAX_RULES)"
    by (rule nb_rules_filters_gui_update)
next
  show "0 \<le> nb_rules (filters_gui_update s)" "nb_rules (filters_gui_update s) \<le> int MAX_RULES"
    using nb_rules_gui_update_bounds by blast+
qed

theorem nb_rules_bounded_witness:
  "0 \<le> nb_rules (gui_init conf_ten_rules None)
   \<and> nb_rules (gui_init conf_ten_rules None) \<le> 10
   \<and> event_append_rule example_host 3 (gui_init conf_ten_rules None) = gui_init conf_ten_rules None
   \<and> event_rule_close 0 (gui_init_alloc conf_ten_rules None) = gui_init_alloc conf_ten_rules None"
proof -
  have r: "reachable (gui_init conf_ten_rules None)"
    by (rule reachable.r_init)
  have n: "nb_rules (gui_init conf_ten_rules None) = 10"
    by (simp add: gui_init_def nb_rules_filters_gui_update gui_init_alloc_def conf_ten_rules_def
        dt_conf_get_int_def CLAMP_def MAX_RULES_def)
  have z: "nb_rules (gui_init_alloc conf_ten_rules None) = 0"
    by (simp add: gui_init_alloc_def)
  show ?thesis
    using nb_rules_bounded [of "gui_init conf_ten_rules None" conf_ten_rules None example_host 3 0]
      nb_rules_bounded [of "gui_init_alloc conf_ten_rules None" conf_ten_rules None example_host 3 0]
      r n z
    by (simp add: MAX_RULES_def)
qed

subsection \<open>The loop of the collection signal\<close>

lemma collection_updated_loop_overrun:
  "0 \<le> i \<Longrightarrow> i \<le> int MAX_RULES \<Longrightarrow> int MAX_RULES \<le> n \<Longrightarrow>
   collection_updated_loop n i rs = Inl (OutOfBounds (int MAX_RULES))"
proof (induction n i rs rule: collection_updated_loop.induct)
  case (1 n i rs)
  show ?case
  proof (cases "i < int MAX_RULES")
    case True
    with "1.prems" have "i \<le> n" "0 \<le> i + 1" "i + 1 \<le> int MAX_RULES" by simp_all
    with "1.IH" "1.prems" True show ?thesis
      by (subst collection_updated_loop.simps) simp
  next
    case False
    with "1.prems" have "i = int MAX_RULES" by simp
    with "1.prems" show ?thesis
      by (subst collection_updated_loop.simps) simp
  qed
qed

lemma collection_updated_loop_ok:
  "0 \<le> i \<Longrightarrow> n < int MAX_RULES \<Longrightarrow> \<exists>rs'. collection_updated_loop n i rs = Inr rs'"
proof (induction n i rs rule: collection_updated_loop.induct)
  case (1 n i rs)
  show ?case
  proof (cases "i \<le> n")
    case True
    with "1.prems" have "0 \<le> i \<and> i < int MAX_RULES" "0 \<le> i + 1" by simp_all
    with "1.IH" "1.prems" True show ?thesis
      by (subst collection_updated_loop.simps) simp
  next
    case False
    then show ?thesis
      by (subst collection_updated_loop.simps) simp
  qed
qed

subsection \<open>Closing a rule: the loop\<close>

lemma persisted_rule_write:
  "persisted_rule
     (dt_conf_set_string (key_string i) (Some str)
       (dt_conf_set_int (key_off i) o'
         (dt_conf_set_int (key_item i) i'
           (dt_conf_set_int (key_mode i) m' c)))) j =
   (if j = i then (i', m', o', Some str) else persisted_rule c j)"
  by (simp add: persisted_rule_def)

lemma persisted_rule_Some:
  "dt_conf_get_string c (key_string j) = Some str \<Longrightarrow>
   persisted_rule c j =
     (dt_conf_get_int c (key_item j), dt_conf_get_int c (key_mode j),
      dt_conf_get_int c (key_off j), Some str)"
  by (simp add: persisted_rule_def)

lemma rule_close_loop_props:
  "(\<forall>j. persisted_rule (rule_close_loop i c) j =
          (if i \<le> j \<and> j < int MAX_RULES - 1 \<and> dt_conf_get_string c (key_string (j + 1)) \<noteq> None
           then persisted_rule c (j + 1) else persisted_rule c j))
   \<and> dt_conf_get_int (rule_close_loop i c) key_num_rules = dt_conf_get_int c key_num_rules"
proof (induction i c rule: rule_close_loop.induct)
  case (1 i c)
  show ?case
  proof (cases "i < int MAX_RULES - 1")
    case False
    then show ?thesis
      by (subst (1 2) rule_close_loop.simps) auto
  next
    case True
    show ?thesis
    proof (cases "dt_conf_get_string c (key_string (i + 1))")
      case None
      have unf: "rule_close_loop i c = rule_close_loop (i + 1) c"
        using True None by (subst rule_close_loop.simps) simp
      from "1.IH"(1) [OF True None]
      have ih: "\<And>j. persisted_rule (rule_close_loop (i + 1) c) j =
          (if i + 1 \<le> j \<and> j < int MAX_RULES - 1 \<and> dt_conf_get_string c (key_string (j + 1)) \<noteq> None
           then persisted_rule c (j + 1) else persisted_rule c j)"
        and ihn: "dt_conf_get_int (rule_close_loop (i + 1) c) key_num_rules = dt_conf_get_int c key_num_rules"
        by blast+
      show ?thesis
      proof (intro conjI allI)
        show "dt_conf_get_int (rule_close_loop i c) key_num_rules = dt_conf_get_int c key_num_rules"
          by (simp only: unf ihn)
      next
        fix j
        show "persisted_rule (rule_close_loop i c) j =
          (if i \<le> j \<and> j < int MAX_RULES - 1 \<and> dt_conf_get_string c (key_string (j + 1)) \<noteq> None
           then persisted_rule c (j + 1) else persisted_rule c j)"
        proof (cases "j = i")
          case True
          then show ?thesis
            using None by (simp add: unf ih)
        next
          case False
          then have "i + 1 \<le> j \<longleftrightarrow> i \<le> j" by linarith
          then show ?thesis
            by (simp add: unf ih)
        qed
      qed
    next
      case (Some str)
      let ?c = "dt_conf_set_string (key_string i) (Some str)
                  (dt_conf_set_int (key_off i) (dt_conf_get_int c (key_off (i + 1)))
                    (dt_conf_set_int (key_item i) (dt_conf_get_int c (key_item (i + 1)))
                      (dt_conf_set_int (key_mode i) (dt_conf_get_int c (key_mode (i + 1))) c)))"
      have unf: "rule_close_loop i c = rule_close_loop (i + 1) ?c"
        using True Some by (subst rule_close_loop.simps) simp
      have s1: "\<And>j. j \<noteq> i \<Longrightarrow> dt_conf_get_string ?c (key_string j) = dt_conf_get_string c (key_string j)"
        by simp
      have p1: "\<And>j. persisted_rule ?c j =
          (if j = i then persisted_rule c (i + 1) else persisted_rule c j)"
        by (simp add: persisted_rule_write persisted_rule_Some [OF Some])
      have n1: "dt_conf_get_int ?c key_num_rules = dt_conf_get_int c key_num_rules"
        by simp
      from "1.IH"(2) [OF True Some]
      have ih: "\<And>j. persisted_rule (rule_close_loop (i + 1) ?c) j =
          (if i + 1 \<le> j \<and> j < int MAX_RULES - 1 \<and> dt_conf_get_string ?c (key_string (j + 1)) \<noteq> None
           then persisted_rule ?c (j + 1) else persisted_rule ?c j)"
        and ihn: "dt_conf_get_int (rule_close_loop (i + 1) ?c) key_num_rules = dt_conf_get_int ?c key_num_rules"
        by blast+
      show ?thesis
      proof (intro conjI allI)
        show "dt_conf_get_int (rule_close_loop i c) key_num_rules = dt_conf_get_int c key_num_rules"
          by (simp only: unf ihn n1)
      next
        fix j
        show "persisted_rule (rule_close_loop i c) j =
          (if i \<le> j \<and> j < int MAX_RULES - 1 \<and> dt_conf_get_string c (key_string (j + 1)) \<noteq> None
           then persisted_rule c (j + 1) else persisted_rule c j)"
        proof (cases "i + 1 \<le> j")
          case True
          then have "j + 1 \<noteq> i" "j \<noteq> i" by simp_all
          then show ?thesis
            using True by (simp only: unf ih s1 p1) auto
        next
          case False
          then show ?thesis
            using True Some by (simp only: unf ih p1) auto
        qed
      qed
    qed
  qed
qed

lemma rule_close_loop_rule:
  "persisted_rule (rule_close_loop i c) j =
     (if i \<le> j \<and> j < int MAX_RULES - 1 \<and> dt_conf_get_string c (key_string (j + 1)) \<noteq> None
      then persisted_rule c (j + 1) else persisted_rule c j)"
  using rule_close_loop_props [of i c] by blast

lemma rule_close_loop_num_rules:
  "dt_conf_get_int (rule_close_loop i c) key_num_rules = dt_conf_get_int c key_num_rules"
  using rule_close_loop_props [of i c] by blast

subsection \<open>The rules keep their number\<close>

lemma gui_update_init_loop_same:
  "length (gui_update_init_loop c n i rs) = length rs
   \<and> (\<forall>k < length rs.
        num (gui_update_init_loop c n i rs ! k) = num (rs ! k)
      \<and> manual_widget_set (gui_update_init_loop c n i rs ! k) = manual_widget_set (rs ! k))"
proof (induction c n i rs rule: gui_update_init_loop.induct)
  case (1 c n i rs)
  show ?case
  proof (cases "i < n")
    case False
    then show ?thesis
      by (simp add: gui_update_init_loop.simps)
  next
    case True
    let ?rs = "rs[nat i := widget_init (rs ! nat i) (dt_conf_get_int c (key_item i))
                            (dt_conf_get_string c (key_string i))]"
    have unf: "gui_update_init_loop c n i rs = gui_update_init_loop c n (i + 1) ?rs"
      using True by (subst gui_update_init_loop.simps) simp
    have "\<And>k. k < length rs \<Longrightarrow> num (?rs ! k) = num (rs ! k)
        \<and> manual_widget_set (?rs ! k) = manual_widget_set (rs ! k)"
    proof -
      fix k assume "k < length rs"
      then show "num (?rs ! k) = num (rs ! k)
        \<and> manual_widget_set (?rs ! k) = manual_widget_set (rs ! k)"
        by (cases "k = nat i") (simp_all add: widget_init_def)
    qed
    with "1.IH" [OF True] show ?thesis
      by (simp add: unf)
  qed
qed

lemma gui_update_remove_loop_same:
  "length (gui_update_remove_loop i rs) = length rs
   \<and> (\<forall>k < length rs.
        num (gui_update_remove_loop i rs ! k) = num (rs ! k)
      \<and> manual_widget_set (gui_update_remove_loop i rs ! k) = manual_widget_set (rs ! k))"
proof (induction i rs rule: gui_update_remove_loop.induct)
  case (1 i rs)
  show ?case
  proof (cases "i < int MAX_RULES")
    case False
    then show ?thesis
      by (simp add: gui_update_remove_loop.simps)
  next
    case True
    let ?rs = "rs[nat i := (rs ! nat i)\<lparr>rprop := 0, w_main := False\<rparr>]"
    have unf: "gui_update_remove_loop i rs = gui_update_remove_loop (i + 1) ?rs"
      using True by (subst gui_update_remove_loop.simps) simp
    have "\<And>k. k < length rs \<Longrightarrow> num (?rs ! k) = num (rs ! k)
        \<and> manual_widget_set (?rs ! k) = manual_widget_set (rs ! k)"
    proof -
      fix k assume "k < length rs"
      then show "num (?rs ! k) = num (rs ! k)
        \<and> manual_widget_set (?rs ! k) = manual_widget_set (rs ! k)"
        by (cases "k = nat i") simp_all
    qed
    with "1.IH" [OF True] show ?thesis
      by (simp add: unf)
  qed
qed

lemma filters_gui_update_same:
  "length (d_rule (filters_gui_update s)) = length (d_rule s)"
  "k < length (d_rule s) \<Longrightarrow> num (d_rule (filters_gui_update s) ! k) = num (d_rule s ! k)"
  "k < length (d_rule s) \<Longrightarrow>
     manual_widget_set (d_rule (filters_gui_update s) ! k) = manual_widget_set (d_rule s ! k)"
  using gui_update_init_loop_same gui_update_remove_loop_same
  by (simp_all add: filters_gui_update_def Let_def)

lemma gui_init_rules:
  "length (d_rule (gui_init c w)) = MAX_RULES"
  "k < MAX_RULES \<Longrightarrow> num (d_rule (gui_init c w) ! k) = int k"
  "k < MAX_RULES \<Longrightarrow> manual_widget_set (d_rule (gui_init c w) ! k) = 0"
  "nb_rules (gui_init c w) = CLAMP (dt_conf_get_int c key_num_rules) 0 (int MAX_RULES)"
  "conf (gui_init c w) = c"
  by (simp_all add: gui_init_def filters_gui_update_same nb_rules_filters_gui_update
      gui_init_alloc_def zero_rule_def)

subsection \<open>C3: closing a rule\<close>

lemma persisted_rule_set_num_rules [simp]:
  "persisted_rule (dt_conf_set_int key_num_rules v c) j = persisted_rule c j"
  by (simp add: persisted_rule_def)

lemma conf_event_rule_close:
  "manual_widget_set (d_rule s ! k) = 0 \<Longrightarrow> 0 < nb_rules s \<Longrightarrow>
   conf (event_rule_close k s) =
     rule_close_loop (num (d_rule s ! k)) (dt_conf_set_int key_num_rules (nb_rules s - 1) (conf s))"
  by (simp add: event_rule_close_def)

lemma conf_two_rules_values:
  "dt_conf_get_int (conf_two_rules x) key_num_rules = 2"
  "persisted_rule (conf_two_rules x) 0 = (1, 0, 0, Some ''a'')"
  "persisted_rule (conf_two_rules x) 1 = (2, 0, 0, x)"
  "dt_conf_get_string (conf_two_rules x) (key_string 1) = x"
  by (simp_all add: conf_two_rules_def persisted_rule_def dt_conf_get_int_def dt_conf_get_string_def)

lemma two_rules_state:
  "manual_widget_set (d_rule (gui_init (conf_two_rules x) None) ! 0) = 0"
  "num (d_rule (gui_init (conf_two_rules x) None) ! 0) = 0"
  "nb_rules (gui_init (conf_two_rules x) None) = 2"
  "conf (gui_init (conf_two_rules x) None) = conf_two_rules x"
  using gui_init_rules(2,3) [of 0 "conf_two_rules x" None]
  by (simp_all add: gui_init_rules(4,5) conf_two_rules_values CLAMP_def MAX_RULES_def)

lemma rules_idle_update:
  "rules_idle rs \<Longrightarrow> num r = num (rs ! k) \<Longrightarrow> manual_widget_set r = manual_widget_set (rs ! k) \<Longrightarrow>
   rules_idle (rs[k := r])"
proof -
  assume a: "rules_idle rs" and n: "num r = num (rs ! k)"
    and m: "manual_widget_set r = manual_widget_set (rs ! k)"
  have "\<And>j. j < MAX_RULES \<Longrightarrow> num (rs[k := r] ! j) = int j \<and> manual_widget_set (rs[k := r] ! j) = 0"
  proof -
    fix j assume "j < MAX_RULES"
    with a n m show "num (rs[k := r] ! j) = int j \<and> manual_widget_set (rs[k := r] ! j) = 0"
      by (cases "j = k") (simp_all add: rules_idle_def)
  qed
  with a show ?thesis
    by (simp add: rules_idle_def)
qed

lemma rules_idle_same:
  "rules_idle rs \<Longrightarrow> length rs' = length rs \<Longrightarrow>
   (\<forall>k < length rs. num (rs' ! k) = num (rs ! k) \<and> manual_widget_set (rs' ! k) = manual_widget_set (rs ! k)) \<Longrightarrow>
   rules_idle rs'"
  by (simp add: rules_idle_def)

lemma rules_idle_gui_update:
  "rules_idle (d_rule s) \<Longrightarrow> rules_idle (d_rule (filters_gui_update s))"
proof -
  assume a: "rules_idle (d_rule s)"
  have "length (d_rule (filters_gui_update s)) = length (d_rule s)"
    by (rule filters_gui_update_same(1))
  moreover have "\<forall>k < length (d_rule s).
      num (d_rule (filters_gui_update s) ! k) = num (d_rule s ! k)
      \<and> manual_widget_set (d_rule (filters_gui_update s) ! k) = manual_widget_set (d_rule s ! k)"
    by (simp add: filters_gui_update_same)
  ultimately show ?thesis
    using a by (rule rules_idle_same [rotated])
qed

lemma rules_idle_gui_init: "rules_idle (d_rule (gui_init c w))"
  by (simp add: rules_idle_def gui_init_rules)

lemma collection_updated_loop_same:
  "collection_updated_loop n i rs = Inr rs' \<Longrightarrow>
   length rs' = length rs
   \<and> (\<forall>k < length rs. num (rs' ! k) = num (rs ! k)
         \<and> manual_widget_set (rs' ! k) = manual_widget_set (rs ! k))"
proof (induction n i rs rule: collection_updated_loop.induct)
  case (1 n i rs)
  show ?case
  proof (cases "i \<le> n")
    case False
    with "1.prems" show ?thesis
      by (simp add: collection_updated_loop.simps)
  next
    case True
    show ?thesis
    proof (cases "0 \<le> i \<and> i < int MAX_RULES")
      case False
      with True "1.prems" show ?thesis
        by (simp add: collection_updated_loop.simps)
    next
      case b: True
      let ?rs = "rs[nat i := widget_update (rs ! nat i)]"
      have "collection_updated_loop n (i + 1) ?rs = Inr rs'"
        using "1.prems" True b by (subst (asm) collection_updated_loop.simps) simp
      from "1.IH" [OF True b this]
      have ih: "length rs' = length ?rs"
        "\<forall>k < length ?rs. num (rs' ! k) = num (?rs ! k)
         \<and> manual_widget_set (rs' ! k) = manual_widget_set (?rs ! k)"
        by blast+
      have "\<And>k. k < length rs \<Longrightarrow> num (?rs ! k) = num (rs ! k)
          \<and> manual_widget_set (?rs ! k) = manual_widget_set (rs ! k)"
      proof -
        fix k assume "k < length rs"
        then show "num (?rs ! k) = num (rs ! k)
          \<and> manual_widget_set (?rs ! k) = manual_widget_set (rs ! k)"
          by (cases "k = nat i") (simp_all add: widget_update_def)
      qed
      with ih show ?thesis
        by simp
    qed
  qed
qed

lemma d_rule_simps [simp]:
  "d_rule (filters_update_params s) = d_rule s"
  "d_rule (conf_update_rule h k s) = d_rule s"
  "d_rule (event_rule_changed h k s) = d_rule s"
  "d_rule (gui_reset s) = d_rule s"
  by (simp_all add: filters_update_params_def conf_update_rule_def Let_def event_rule_changed_def
      gui_reset_def)

lemma rules_idle_rule_set_raw_text:
  "rules_idle (d_rule s) \<Longrightarrow> rules_idle (d_rule (rule_set_raw_text h k t sg s))"
  by (simp add: rule_set_raw_text_def Let_def rules_idle_update)

lemma rules_idle_change_type:
  "rules_idle (d_rule s) \<Longrightarrow> rules_idle (d_rule (event_rule_change_type h k m s))"
proof -
  assume a: "rules_idle (d_rule s)"
  let ?s1 = "s\<lparr>d_rule := (d_rule s)[k := (d_rule s ! k)\<lparr>rprop := m\<rparr>],
                   conf := dt_conf_set_int (key_nb_use m)
                             (dt_conf_get_int (conf s) (key_nb_use m) + 1) (conf s)\<rparr>"
  have "rules_idle (d_rule ?s1)"
    using a by (simp add: rules_idle_update)
  then have "rules_idle (d_rule (rule_set_raw_text h k (Some []) False ?s1))"
    by (rule rules_idle_rule_set_raw_text)
  then show ?thesis
    using a by (simp add: event_rule_change_type_def Let_def)
qed

lemma reachable_rules_idle:
  "reachable s \<Longrightarrow> rules_idle (d_rule s)"
proof (induction rule: reachable.induct)
  case (r_init c where_ext)
  show ?case by (rule rules_idle_gui_init)
next
  case (r_gui_update s)
  then show ?case by (simp add: rules_idle_gui_update)
next
  case (r_set_params s p s')
  from r_set_params.hyps(2) obtain c where
    "s' = filters_gui_update (filters_update_params (s\<lparr>conf := c\<rparr>))"
    by (auto simp: set_params_def split: sum.splits)
  with r_set_params.IH show ?case
    by (simp add: rules_idle_gui_update)
next
  case (r_get_params s)
  then show ?case by (simp add: get_params_def)
next
  case (r_raw_text_changed s h k t)
  then show ?case by (simp add: raw_text_changed_def rules_idle_rule_set_raw_text)
next
  case (r_filename_changed s h k name ext)
  then show ?case by (simp add: filename_changed_def rules_idle_rule_set_raw_text)
next
  case (r_rule_close s k)
  then show ?case
    by (simp add: event_rule_close_def rules_idle_gui_update)
next
  case (r_change_type s h k m)
  then show ?case by (simp add: rules_idle_change_type)
next
  case (r_append s h m)
  then show ?case
    by (simp add: event_append_rule_def Let_def rules_idle_gui_update)
next
  case (r_updated s where_ext s')
  show ?case
  proof (cases "where_ext \<noteq> last_where_ext s")
    case False
    with r_updated show ?thesis
      by (simp add: dt_collection_updated_def)
  next
    case True
    with r_updated.hyps(2) obtain rs where
      l: "collection_updated_loop (nb_rules s) 0 (d_rule s) = Inr rs" and s': "d_rule s' = rs"
      by (auto simp: dt_collection_updated_def split: sum.splits)
    from collection_updated_loop_same [OF l]
    have "length rs = length (d_rule s)"
      and "\<forall>k < length (d_rule s). num (rs ! k) = num (d_rule s ! k)
         \<and> manual_widget_set (rs ! k) = manual_widget_set (d_rule s ! k)"
      by blast+
    with r_updated.IH have "rules_idle rs"
      by (rule rules_idle_same)
    then show ?thesis
      by (simp add: s')
  qed
qed simp_all

text \<open>
  Claim C3, amended.  In every state the module reaches with at least one active rule,
  \<open>_event_rule_close\<close> on the rule at position \<open>k\<close> stores the in-memory number of
  rules less one as the number of rules (one less than the stored number when the two
  agree).  For every position \<open>j\<close> from \<open>k\<close> to 8 whose successor has a string, the
  item, mode, off and string of \<open>j\<close> become those of \<open>j + 1\<close>, so the order of the
  rules is kept; a position whose successor has no string keeps its values, and so do
  the positions before \<open>k\<close> and position 9.
\<close>

theorem rule_close_moves_rules_up:
  assumes r: "reachable s" and k: "k < MAX_RULES" and some: "0 < nb_rules s"
  shows "dt_conf_get_int (conf (event_rule_close k s)) key_num_rules = nb_rules s - 1
    \<and> (dt_conf_get_int (conf s) key_num_rules = nb_rules s \<longrightarrow>
         dt_conf_get_int (conf (event_rule_close k s)) key_num_rules
           = dt_conf_get_int (conf s) key_num_rules - 1)
    \<and> (\<forall>j. int k \<le> j \<and> j < int MAX_RULES - 1
            \<and> dt_conf_get_string (conf s) (key_string (j + 1)) \<noteq> None \<longrightarrow>
          persisted_rule (conf (event_rule_close k s)) j = persisted_rule (conf s) (j + 1))
    \<and> (\<forall>j. int k \<le> j \<and> j < int MAX_RULES - 1
            \<and> dt_conf_get_string (conf s) (key_string (j + 1)) = None \<longrightarrow>
          persisted_rule (conf (event_rule_close k s)) j = persisted_rule (conf s) j)
    \<and> (\<forall>j. j < int k \<or> int MAX_RULES - 1 \<le> j \<longrightarrow>
          persisted_rule (conf (event_rule_close k s)) j = persisted_rule (conf s) j)"
proof -
  from reachable_rules_idle [OF r] k
  have live: "manual_widget_set (d_rule s ! k) = 0" and n: "num (d_rule s ! k) = int k"
    by (simp_all add: rules_idle_def)
  let ?c1 = "dt_conf_set_int key_num_rules (nb_rules s - 1) (conf s)"
  have c': "conf (event_rule_close k s) = rule_close_loop (int k) ?c1"
    using conf_event_rule_close [OF live some] by (simp add: n)
  have p: "\<And>j. persisted_rule (conf (event_rule_close k s)) j =
          (if int k \<le> j \<and> j < int MAX_RULES - 1
               \<and> dt_conf_get_string (conf s) (key_string (j + 1)) \<noteq> None
           then persisted_rule (conf s) (j + 1) else persisted_rule (conf s) j)"
    and nr: "dt_conf_get_int (conf (event_rule_close k s)) key_num_rules = nb_rules s - 1"
    by (auto simp: c' rule_close_loop_rule rule_close_loop_num_rules)
  show ?thesis
  proof (intro conjI allI impI)
    show "dt_conf_get_int (conf (event_rule_close k s)) key_num_rules = nb_rules s - 1"
      by (rule nr)
  next
    assume "dt_conf_get_int (conf s) key_num_rules = nb_rules s"
    then show "dt_conf_get_int (conf (event_rule_close k s)) key_num_rules
           = dt_conf_get_int (conf s) key_num_rules - 1"
      by (simp add: nr)
  next
    fix j
    assume "int k \<le> j \<and> j < int MAX_RULES - 1
            \<and> dt_conf_get_string (conf s) (key_string (j + 1)) \<noteq> None"
    then show "persisted_rule (conf (event_rule_close k s)) j = persisted_rule (conf s) (j + 1)"
      by (simp add: p)
  next
    fix j
    assume "int k \<le> j \<and> j < int MAX_RULES - 1
            \<and> dt_conf_get_string (conf s) (key_string (j + 1)) = None"
    then show "persisted_rule (conf (event_rule_close k s)) j = persisted_rule (conf s) j"
      by (auto simp: p)
  next
    fix j
    assume "j < int k \<or> int MAX_RULES - 1 \<le> j"
    then show "persisted_rule (conf (event_rule_close k s)) j = persisted_rule (conf s) j"
      by (auto simp: p)
  qed
qed

theorem rule_close_moves_rules_up_witness:
  "persisted_rule (conf (event_rule_close 0 (gui_init (conf_two_rules (Some ''b'')) None))) 0
       = (2, 0, 0, Some ''b'')
   \<and> dt_conf_get_int (conf (event_rule_close 0 (gui_init (conf_two_rules (Some ''b'')) None)))
        key_num_rules = 1"
proof -
  let ?s = "gui_init (conf_two_rules (Some ''b'')) None"
  have r: "reachable ?s"
    by (rule reachable.r_init)
  have k: "0 < MAX_RULES"
    by (simp add: MAX_RULES_def)
  have b: "0 < nb_rules ?s"
    by (simp add: two_rules_state)
  show ?thesis
    using rule_close_moves_rules_up [OF r k b]
    by (simp add: two_rules_state conf_two_rules_values MAX_RULES_def)
qed

lemma reset_two_rules_state:
  "reachable (gui_reset (gui_init (conf_two_rules x) None))"
  "nb_rules (gui_reset (gui_init (conf_two_rules x) None)) = 2"
  "dt_conf_get_int (conf (gui_reset (gui_init (conf_two_rules x) None))) key_num_rules = 0"
  "manual_widget_set (d_rule (gui_reset (gui_init (conf_two_rules x) None)) ! 0) = 0"
  by (simp_all add: reachable.r_reset reachable.r_init two_rules_state) (simp add: gui_reset_def)

text \<open>
  Claim C3 as stated fails in two ways.  With two rules, the second without a string,
  closing rule 0 leaves position 0 as it was.  After \<open>gui_reset\<close> the stored number of
  rules is 0 while two rules are still active, and closing rule 0 stores 1.
\<close>

theorem rule_close_counterexample:
  "reachable (gui_init (conf_two_rules None) None)
   \<and> 0 < nb_rules (gui_init (conf_two_rules None) None)
   \<and> persisted_rule (conf (gui_init (conf_two_rules None) None)) 1 = (2, 0, 0, None)
   \<and> persisted_rule (conf (event_rule_close 0 (gui_init (conf_two_rules None) None))) 0
       = (1, 0, 0, Some ''a'')
   \<and> persisted_rule (conf (event_rule_close 0 (gui_init (conf_two_rules None) None))) 0
       \<noteq> persisted_rule (conf (gui_init (conf_two_rules None) None)) 1
   \<and> reachable (gui_reset (gui_init (conf_two_rules (Some ''b'')) None))
   \<and> 0 < nb_rules (gui_reset (gui_init (conf_two_rules (Some ''b'')) None))
   \<and> dt_conf_get_int (conf (gui_reset (gui_init (conf_two_rules (Some ''b'')) None))) key_num_rules = 0
   \<and> dt_conf_get_int
        (conf (event_rule_close 0 (gui_reset (gui_init (conf_two_rules (Some ''b'')) None))))
        key_num_rules = 1"
proof -
  let ?s = "gui_init (conf_two_rules None) None"
  let ?c1 = "dt_conf_set_int key_num_rules (nb_rules ?s - 1) (conf ?s)"
  have a: "manual_widget_set (d_rule ?s ! 0) = 0" and b: "0 < nb_rules ?s"
    and n: "num (d_rule ?s ! 0) = 0" and c: "conf ?s = conf_two_rules None"
    by (simp_all add: two_rules_state)
  have c': "conf (event_rule_close 0 ?s) = rule_close_loop 0 ?c1"
    using conf_event_rule_close [OF a b] by (simp add: n)
  have "persisted_rule (rule_close_loop 0 ?c1) 0 = persisted_rule ?c1 0"
    by (simp add: rule_close_loop_rule c conf_two_rules_values)
  then have p: "persisted_rule (conf (event_rule_close 0 ?s)) 0 = (1, 0, 0, Some ''a'')"
    by (simp add: c' c conf_two_rules_values)
  let ?t = "gui_reset (gui_init (conf_two_rules (Some ''b'')) None)"
  have ta: "manual_widget_set (d_rule ?t ! 0) = 0" and tb: "0 < nb_rules ?t"
    by (simp_all add: reset_two_rules_state two_rules_state)
  have t: "dt_conf_get_int (conf (event_rule_close 0 ?t)) key_num_rules = 1"
    using conf_event_rule_close [OF ta tb]
    by (simp add: rule_close_loop_num_rules two_rules_state)
  show ?thesis
    using b p t reachable.r_init [of "conf_two_rules None" None]
    by (simp add: c conf_two_rules_values reset_two_rules_state two_rules_state)
qed

subsection \<open>C6: defaults for missing data\<close>

text \<open>
  Claim C6, amended.  A rule whose string is missing in the configuration has the empty
  string after \<open>_filters_update_params\<close>.  When the database delivers no row, the range
  widget of the aspect ratio gets the bounds 0.0 and 4.0; the range widget of the ISO
  value starts from the defaults 50 and 12800 and gets the bounds 50 and 12801, because
  the upper bound is \<open>floor (max) + 1\<close>.
\<close>

theorem missing_data_defaults:
  "(i < MAX_RULES \<and> dt_conf_get_string (conf s) (key_string (int i)) = None \<longrightarrow>
      string (rule (d_params (filters_update_params s)) ! i) = [])
   \<and> ratio_widget_init None = (0, 4)
   \<and> iso_widget_init None = (50, 12801)"
proof (intro conjI impI)
  assume a: "i < MAX_RULES \<and> dt_conf_get_string (conf s) (key_string (int i)) = None"
  then have "string (read_params_rule (conf s) (int i) zero_params_rule) = []"
    by (simp add: read_params_rule_fields zero_params_rule_def)
  with a show "string (rule (d_params (filters_update_params s)) ! i) = []"
    by (simp add: filters_update_params_def params_of_conf_props(3) zero_params_rule_def)
next
  show "ratio_widget_init None = (0, 4)"
    by (simp add: ratio_widget_init_def)
next
  show "iso_widget_init None = (50, 12801)"
    by (simp add: iso_widget_init_def)
qed

theorem missing_data_defaults_witness:
  "string (rule (d_params (filters_update_params (gui_init (conf_two_rules None) None))) ! 1) = []"
  using missing_data_defaults [of 1 "gui_init (conf_two_rules None) None"]
  by (simp add: two_rules_state conf_two_rules_values MAX_RULES_def)

text \<open>
  The upper bound of the ISO widget without a row is not 12800, as claim C6 has it.
\<close>

theorem iso_default_bound_counterexample:
  "snd (iso_widget_init None) \<noteq> 12800 \<and> snd (iso_widget_init None) = 12801"
  by (simp add: iso_widget_init_def)

subsection \<open>C7: the collection signal with ten rules\<close>

lemma dt_collection_updated_overrun:
  "nb_rules s = int MAX_RULES \<Longrightarrow> where_ext \<noteq> last_where_ext s \<Longrightarrow>
   dt_collection_updated where_ext s = Inl (OutOfBounds (int MAX_RULES))"
  using collection_updated_loop_overrun [of 0 "nb_rules s" "d_rule s"]
  by (simp add: dt_collection_updated_def)

lemma dt_collection_updated_ok:
  "nb_rules s < int MAX_RULES \<Longrightarrow> \<exists>s'. dt_collection_updated where_ext s = Inr s'"
  using collection_updated_loop_ok [of 0 "nb_rules s" "d_rule s"]
  by (auto simp: dt_collection_updated_def)

text \<open>
  Claim C7 does not hold.  With ten rules, which the module reaches, the loop of
  \<open>_dt_collection_updated\<close> runs up to \<open>i = 10\<close> and reads \<open>rule[10]\<close>, one past the
  array.
\<close>

theorem collection_updated_reads_past_array:
  "reachable (gui_init conf_ten_rules None)
   \<and> nb_rules (gui_init conf_ten_rules None) = 10
   \<and> dt_collection_updated (Some ''1=1'') (gui_init conf_ten_rules None) = Inl (OutOfBounds 10)"
proof -
  have n: "nb_rules (gui_init conf_ten_rules None) = int MAX_RULES"
    by (simp add: gui_init_rules(4) conf_ten_rules_def dt_conf_get_int_def CLAMP_def MAX_RULES_def)
  have w: "Some ''1=1'' \<noteq> last_where_ext (gui_init conf_ten_rules None)"
    by (simp add: gui_init_def gui_init_alloc_def filters_gui_update_def Let_def)
  from dt_collection_updated_overrun [OF n w] n reachable.r_init [of conf_ten_rules None]
  show ?thesis
    by (simp add: MAX_RULES_def)
qed

subsection \<open>The loops of the history\<close>

lemma history_slot_set [simp]:
  "history_slot (dt_conf_set_string (key_history i) v c) j = (if j = i then v else history_slot c j)"
  by (simp add: history_slot_def)

lemma remove_loop_outside:
  "0 \<le> move \<Longrightarrow> j < i - move \<or> nbmax \<le> j \<Longrightarrow>
   history_slot (history_remove_loop buf nbmax i move c) j = history_slot c j"
proof (induction buf nbmax i move c rule: history_remove_loop.induct)
  case (1 buf nbmax i move c)
  show ?case
  proof (cases "i < nbmax")
    case False
    then show ?thesis
      by (subst history_remove_loop.simps) simp
  next
    case lt: True
    show ?thesis
    proof (cases "dt_conf_get_string c (key_history i) = Some buf")
      case True
      from "1.prems" have "0 \<le> move + 1" "j < i + 1 - (move + 1) \<or> nbmax \<le> j" by simp_all
      from "1.IH"(1) [OF lt True this]
      have "history_slot (history_remove_loop buf nbmax i move c) j
          = history_slot (dt_conf_set_string (key_history i) (Some []) c) j"
        using lt True by (subst history_remove_loop.simps) simp
      also have "\<dots> = history_slot c j"
        using "1.prems" lt by auto
      finally show ?thesis .
    next
      case False
      show ?thesis
      proof (cases "move > 0")
        case True
        from "1.prems" have "j < i + 1 - move \<or> nbmax \<le> j" by auto
        from "1.IH"(2) [OF lt False True "1.prems"(1) this]
        have "history_slot (history_remove_loop buf nbmax i move c) j
          = history_slot (dt_conf_set_string (key_history (i - move)) (dt_conf_get_string c (key_history i))
                     (dt_conf_set_string (key_history i) (Some []) c)) j"
          using lt False True by (subst history_remove_loop.simps) simp
        also have "\<dots> = history_slot c j"
          using "1.prems" lt True by auto
        finally show ?thesis .
      next
        case m0: False
        from "1.prems" have "j < i + 1 - move \<or> nbmax \<le> j" by auto
        from "1.IH"(3) [OF lt False m0 "1.prems"(1) this]
        show ?thesis
          using lt False m0 by (subst history_remove_loop.simps) simp
      qed
    qed
  qed
qed

lemma map_const_replicate:
  "(\<And>x. x \<in> set xs \<Longrightarrow> f x = v) \<Longrightarrow> map f xs = replicate (length xs) v"
  by (induction xs) simp_all

lemma remove_loop_compacts:
  "0 \<le> move \<Longrightarrow> i \<le> nbmax \<Longrightarrow>
   (\<And>j. i - move \<le> j \<Longrightarrow> j < i \<Longrightarrow> history_slot c j = Some []) \<Longrightarrow>
   map (history_slot (history_remove_loop buf nbmax i move c)) [i - move..nbmax - 1] =
     filter (\<lambda>e. e \<noteq> Some buf) (map (history_slot c) [i..nbmax - 1])
     @ replicate (nat move + length (filter (\<lambda>e. e = Some buf) (map (history_slot c) [i..nbmax - 1])))
         (Some [])"
proof (induction buf nbmax i move c rule: history_remove_loop.induct)
  case (1 buf nbmax i move c)
  show ?case
  proof (cases "i < nbmax")
    case False
    with "1.prems" have e: "i = nbmax" by simp
    have "map (history_slot c) [i - move..nbmax - 1] = replicate (length [i - move..nbmax - 1]) (Some [])"
      by (rule map_const_replicate) (use "1.prems"(3) e in auto)
    then show ?thesis
      using e "1.prems"(1) by (subst history_remove_loop.simps) simp
  next
    case lt: True
    then have up: "[i..nbmax - 1] = i # [i + 1..nbmax - 1]"
      by (simp add: upto_rec1)
    show ?thesis
    proof (cases "dt_conf_get_string c (key_history i) = Some buf")
      case True
      let ?c = "dt_conf_set_string (key_history i) (Some []) c"
      have unf: "history_remove_loop buf nbmax i move c = history_remove_loop buf nbmax (i + 1) (move + 1) ?c"
        using lt True by (subst history_remove_loop.simps) simp
      have same: "map (history_slot ?c) [i + 1..nbmax - 1] = map (history_slot c) [i + 1..nbmax - 1]"
        by (rule map_cong) auto
      have idx: "i + 1 - (move + 1) = i - move"
        by simp
      have gap: "\<And>j. i + 1 - (move + 1) \<le> j \<Longrightarrow> j < i + 1 \<Longrightarrow> history_slot ?c j = Some []"
        using "1.prems"(3) by simp
      from "1.prems" lt have "0 \<le> move + 1" "i + 1 \<le> nbmax" by simp_all
      from "1.IH"(1) [OF lt True this gap]
      have "map (history_slot (history_remove_loop buf nbmax i move c)) [i - move..nbmax - 1] =
         filter (\<lambda>e. e \<noteq> Some buf) (map (history_slot c) [i + 1..nbmax - 1])
         @ replicate (nat (move + 1)
              + length (filter (\<lambda>e. e = Some buf) (map (history_slot c) [i + 1..nbmax - 1])))
             (Some [])"
        by (simp only: unf same idx)
      moreover have "history_slot c i = Some buf"
        using True by (simp add: history_slot_def)
      moreover have "nat (move + 1) = Suc (nat move)"
        using "1.prems"(1) by simp
      ultimately show ?thesis
        by (simp add: up)
    next
      case False
      then have ne: "history_slot c i \<noteq> Some buf"
        by (simp add: history_slot_def)
      show ?thesis
      proof (cases "move > 0")
        case True
        let ?c = "dt_conf_set_string (key_history (i - move)) (dt_conf_get_string c (key_history i))
                     (dt_conf_set_string (key_history i) (Some []) c)"
        have unf: "history_remove_loop buf nbmax i move c = history_remove_loop buf nbmax (i + 1) move ?c"
          using lt False True by (subst history_remove_loop.simps) simp
        have same: "map (history_slot ?c) [i + 1..nbmax - 1] = map (history_slot c) [i + 1..nbmax - 1]"
          by (rule map_cong) (use True in auto)
        have gap: "\<And>j. i + 1 - move \<le> j \<Longrightarrow> j < i + 1 \<Longrightarrow> history_slot ?c j = Some []"
          using "1.prems"(3) True by simp
        from "1.prems" lt have le: "i + 1 \<le> nbmax" by simp
        from "1.IH"(2) [OF lt False True "1.prems"(1) le gap]
        have ih: "map (history_slot (history_remove_loop buf nbmax i move c)) [i + 1 - move..nbmax - 1] =
           filter (\<lambda>e. e \<noteq> Some buf) (map (history_slot c) [i + 1..nbmax - 1])
           @ replicate (nat move
                + length (filter (\<lambda>e. e = Some buf) (map (history_slot c) [i + 1..nbmax - 1])))
               (Some [])"
          by (simp only: unf same)
        have "history_slot (history_remove_loop buf nbmax i move c) (i - move) = history_slot ?c (i - move)"
          unfolding unf by (rule remove_loop_outside) (use "1.prems"(1) in simp_all)
        also have "\<dots> = history_slot c i"
          by (simp add: history_slot_def)
        finally have hd: "history_slot (history_remove_loop buf nbmax i move c) (i - move) = history_slot c i" .
        have up2: "[i - move..nbmax - 1] = (i - move) # [i + 1 - move..nbmax - 1]"
          using lt True by (subst upto_rec1) (simp_all add: algebra_simps)
        show ?thesis
          using ne by (simp add: up up2 hd ih)
      next
        case m0: False
        with "1.prems"(1) have z: "move = 0" by simp
        have unf: "history_remove_loop buf nbmax i move c = history_remove_loop buf nbmax (i + 1) move c"
          using lt False m0 by (subst history_remove_loop.simps) simp
        have gap: "\<And>j. i + 1 - move \<le> j \<Longrightarrow> j < i + 1 \<Longrightarrow> history_slot c j = Some []"
          using z by simp
        from "1.prems" lt have le: "i + 1 \<le> nbmax" by simp
        have ih: "map (history_slot (history_remove_loop buf nbmax i move c)) [i + 1..nbmax - 1] =
           filter (\<lambda>e. e \<noteq> Some buf) (map (history_slot c) [i + 1..nbmax - 1])
           @ replicate (length (filter (\<lambda>e. e = Some buf) (map (history_slot c) [i + 1..nbmax - 1])))
               (Some [])"
          unfolding unf using "1.IH"(3) [OF lt False m0 "1.prems"(1) le gap] by (simp add: z)
        have hd: "history_slot (history_remove_loop buf nbmax i move c) i = history_slot c i"
          unfolding unf by (rule remove_loop_outside) (use z in simp_all)
        show ?thesis
          using ne by (simp add: up z hd [unfolded z] ih [unfolded z])
      qed
    qed
  qed
qed

lemma int32_wrap_id:
  "INT_MIN \<le> x \<Longrightarrow> x \<le> INT_MAX \<Longrightarrow> int32_wrap x = x"
proof -
  assume "INT_MIN \<le> x" and "x \<le> INT_MAX"
  then have lo: "- (2 ^ 31) \<le> x" and hi: "x < 2 ^ 31"
    by (simp_all add: INT_MIN_def INT_MAX_def)
  from lo hi have "signed_take_bit 31 x = x"
    by (rule signed_take_bit_int_eq_self)
  then show ?thesis
    by (simp add: int32_wrap_def sint_sbintrunc')
qed

lemma shift_loop_slot:
  "i < INT_MAX \<Longrightarrow>
   history_slot (history_shift_loop i c) j =
     (if 1 \<le> j \<and> j \<le> i + 1 then history_slot c (j - 1) else history_slot c j)"
proof (induction i c arbitrary: j rule: history_shift_loop.induct)
  case (1 i c)
  show ?case
  proof (cases "i \<ge> 0")
    case False
    then show ?thesis
      by (subst history_shift_loop.simps) auto
  next
    case True
    have w: "int32_wrap (i + 1) = i + 1"
      using True "1.prems" by (intro int32_wrap_id) (simp_all add: INT_MIN_def)
    let ?c = "dt_conf_set_string (key_history (i + 1)) (dt_conf_get_string c (key_history i)) c"
    have unf: "history_shift_loop i c = history_shift_loop (i - 1) ?c"
      using True by (subst history_shift_loop.simps) (simp add: w)
    from "1.prems" have "i - 1 < INT_MAX" by simp
    from "1.IH" [OF True this, of j]
    have "history_slot (history_shift_loop (i - 1) ?c) j =
       (if 1 \<le> j \<and> j \<le> i - 1 + 1 then history_slot ?c (j - 1) else history_slot ?c j)"
      by (simp add: w)
    then show ?thesis
      using True by (auto simp: unf history_slot_def)
  qed
qed

subsection \<open>C4: saving the history\<close>

lemma ints_history_remove_loop [simp]:
  "ints (history_remove_loop buf nbmax i move c) = ints c"
proof (induction buf nbmax i move c rule: history_remove_loop.induct)
  case (1 buf nbmax i move c)
  then show ?case
    by (subst history_remove_loop.simps) (simp add: dt_conf_set_string_def)
qed

lemma ints_history_shift_loop [simp]:
  "ints (history_shift_loop i c) = ints c"
proof (induction i c rule: history_shift_loop.induct)
  case (1 i c)
  then show ?case
    by (subst history_shift_loop.simps) (simp add: dt_conf_set_string_def)
qed

lemma ints_history_save [simp]: "ints (history_save buf c) = ints c"
  by (simp add: history_save_def Let_def dt_conf_set_string_def)

lemma get_int_history_save [simp]:
  "dt_conf_get_int (history_save buf c) k = dt_conf_get_int c k"
  by (simp add: dt_conf_get_int_def)

lemma history_slot0: "history_slot c 0 = dt_conf_get_string c key_history0"
  by (simp add: history_slot_def)

lemma history_save_slot0: "history_slot (history_save buf c) 0 = Some buf"
  by (simp add: history_save_def Let_def history_slot_def)

lemma history_save_early: "history_slot c 0 = Some buf \<Longrightarrow> history_save buf c = c"
  by (simp add: history_save_def history_slot_def)

lemma history_save_slot:
  assumes ne: "history_slot c 0 \<noteq> Some buf"
    and lo: "INT_MIN + 2 \<le> dt_conf_get_int c key_history_max"
    and hi: "dt_conf_get_int c key_history_max \<le> INT_MAX"
  shows "history_slot (history_save buf c) j =
     (if j = 0 then Some buf
      else if 1 \<le> j \<and> j \<le> dt_conf_get_int c key_history_max - 1
      then history_slot (history_remove_loop buf (dt_conf_get_int c key_history_max) 1 0 c) (j - 1)
      else history_slot (history_remove_loop buf (dt_conf_get_int c key_history_max) 1 0 c) j)"
proof -
  from ne have n0: "dt_conf_get_string c key_history0 \<noteq> Some buf"
    by (simp add: history_slot_def)
  have w: "int32_wrap (dt_conf_get_int c key_history_max - 2) = dt_conf_get_int c key_history_max - 2"
    using lo hi by (intro int32_wrap_id) simp_all
  have b: "dt_conf_get_int c key_history_max - 2 < INT_MAX"
    using hi by simp
  show ?thesis
    using n0 by (auto simp: history_save_def Let_def w shift_loop_slot [OF b])
qed

lemma map_pred_upto:
  "map (\<lambda>j. g (j - 1)) [a + 1..b + 1] = map g [a..b]"
proof (induction a b rule: upto.induct)
  case (1 i j)
  show ?case
  proof (cases "i \<le> j")
    case True
    with "1.IH" have "map (\<lambda>j. g (j - 1)) [i + 1 + 1..j + 1] = map g [i + 1..j]" by simp
    moreover have "[i + 1..j + 1] = (i + 1) # [i + 1 + 1..j + 1]"
      using True by (simp add: upto_rec1)
    moreover have "[i..j] = i # [i + 1..j]"
      using True by (simp add: upto_rec1)
    ultimately show ?thesis by simp
  next
    case False
    then show ?thesis by simp
  qed
qed

lemma take_map_upto:
  "1 \<le> n \<Longrightarrow> take (nat (n - 1)) (map g [1..n]) = map g [1..n - 1]"
proof -
  assume "1 \<le> n"
  then have "[1..n] = [1..n - 1] @ [n]"
    by (simp add: upto_rec2)
  then show ?thesis
    by (simp add: take_map)
qed

lemma tl_history_window:
  "tl (history_window c) = map (history_slot c) [1..dt_conf_get_int c key_history_max - 1]"
proof (cases "0 \<le> dt_conf_get_int c key_history_max - 1")
  case True
  then show ?thesis
    by (simp add: history_window_def upto_rec1 [of 0])
next
  case False
  then show ?thesis
    by (simp add: history_window_def)
qed

lemma history_save_window:
  assumes ne: "history_slot c 0 \<noteq> Some buf"
    and lo: "1 \<le> dt_conf_get_int c key_history_max"
    and hi: "dt_conf_get_int c key_history_max \<le> INT_MAX"
  shows "history_window (history_save buf c) =
     take (nat (dt_conf_get_int c key_history_max))
       (Some buf # history_slot c 0
          # filter (\<lambda>e. e \<noteq> Some buf) (tl (history_window c))
          @ replicate (length (filter (\<lambda>e. e = Some buf) (tl (history_window c)))) (Some []))"
proof -
  define N where "N = dt_conf_get_int c key_history_max"
  define c1 where "c1 = history_remove_loop buf N 1 0 c"
  define F where "F = filter (\<lambda>e. e \<noteq> Some buf) (map (history_slot c) [1..N - 1])
          @ replicate (length (filter (\<lambda>e. e = Some buf) (map (history_slot c) [1..N - 1]))) (Some [])"
  have slot: "\<And>j. history_slot (history_save buf c) j =
     (if j = 0 then Some buf else if 1 \<le> j \<and> j \<le> N - 1 then history_slot c1 (j - 1) else history_slot c1 j)"
  proof -
    from lo have "INT_MIN + 2 \<le> dt_conf_get_int c key_history_max"
      by (simp add: INT_MIN_def)
    from history_save_slot [OF ne this hi]
    show "\<And>j. history_slot (history_save buf c) j =
     (if j = 0 then Some buf else if 1 \<le> j \<and> j \<le> N - 1 then history_slot c1 (j - 1) else history_slot c1 j)"
      by (simp add: N_def c1_def)
  qed
  have w: "history_window (history_save buf c) = map (history_slot (history_save buf c)) [0..N - 1]"
    by (simp add: history_window_def N_def)
  have goal: "map (history_slot (history_save buf c)) [0..N - 1] = take (nat N) (Some buf # history_slot c 0 # F)"
  proof -
    from lo have n1: "1 \<le> N" by (simp add: N_def)
    have "map (history_slot (history_save buf c)) [1..N - 1] = map (\<lambda>j. history_slot c1 (j - 1)) [1..N - 1]"
      by (rule map_cong) (auto simp: slot)
    also have "\<dots> = map (history_slot c1) [0..N - 2]"
      using map_pred_upto [of "history_slot c1" 0 "N - 2"] by simp
    finally have m: "map (history_slot (history_save buf c)) [1..N - 1] = map (history_slot c1) [0..N - 2]" .
    have up0: "[0..N - 1] = 0 # [1..N - 1]"
      using n1 by (simp add: upto_rec1 [of 0])
    show ?thesis
    proof (cases "2 \<le> N")
      case False
      with n1 have "N = 1" by simp
      then show ?thesis
        by (simp add: slot)
    next
      case n2: True
      have c10: "history_slot c1 0 = history_slot c 0"
        unfolding c1_def by (rule remove_loop_outside) simp_all
      have comp: "map (history_slot c1) [1..N - 1] = F"
        using remove_loop_compacts [of 0 1 N c buf] n1 by (simp add: c1_def F_def)
      have "map (history_slot c1) [1..N - 2] = take (nat (N - 2)) (map (history_slot c1) [1..N - 1])"
        using take_map_upto [of "N - 1" "history_slot c1"] n2 by (simp add: algebra_simps)
      then have r: "map (history_slot c1) [1..N - 2] = take (nat (N - 2)) F"
        by (simp add: comp)
      have up1: "[0..N - 2] = 0 # [1..N - 2]"
        using n2 by (simp add: upto_rec1 [of 0])
      have "nat N = Suc (Suc (nat (N - 2)))"
        using n2 by simp
      then show ?thesis
        by (simp add: up0 m up1 c10 r slot)
    qed
  qed
  show ?thesis
    using goal by (simp add: w tl_history_window N_def F_def)
qed

lemma history_save_outside:
  "history_slot c 0 \<noteq> Some buf \<Longrightarrow>
   INT_MIN + 2 \<le> dt_conf_get_int c key_history_max \<Longrightarrow>
   dt_conf_get_int c key_history_max \<le> INT_MAX \<Longrightarrow>
   j < 0 \<or> (1 \<le> j \<and> dt_conf_get_int c key_history_max \<le> j) \<Longrightarrow>
   history_slot (history_save buf c) j = history_slot c j"
  by (auto simp: history_save_slot remove_loop_outside)

text \<open>
  Claim C4, amended.  After \<open>_history_save\<close> slot \<open>history0\<close> holds the
  serialization.  When it held it before, nothing changes.  Otherwise, for
  \<open>history_max\<close> of at least 1, the slots 0 to \<open>history_max - 1\<close> become the
  serialization, then the old slot 0, then the old entries of the slots from 1 to
  \<open>history_max - 1\<close> that differ from the serialization, in their order, then empty
  entries in place of the removed ones, all cut to \<open>history_max\<close> entries; none of the
  slots 1 to \<open>history_max - 1\<close> holds a serialization that is not empty; and the slots
  from \<open>history_max\<close> on are as they were, whatever they hold.  For \<open>history_max\<close>
  between \<open>INT_MIN + 2\<close> and 0 slot \<open>history0\<close> is the only slot that changes.
\<close>

theorem history_save_maintains_history:
  "history_slot (history_save buf c) 0 = Some buf
   \<and> (history_slot c 0 = Some buf \<longrightarrow> history_save buf c = c)
   \<and> (history_slot c 0 \<noteq> Some buf
        \<and> 1 \<le> dt_conf_get_int c key_history_max \<and> dt_conf_get_int c key_history_max \<le> INT_MAX \<longrightarrow>
        history_window (history_save buf c) =
          take (nat (dt_conf_get_int c key_history_max))
            (Some buf # history_slot c 0
               # filter (\<lambda>e. e \<noteq> Some buf) (tl (history_window c))
               @ replicate (length (filter (\<lambda>e. e = Some buf) (tl (history_window c)))) (Some []))
      \<and> (buf \<noteq> [] \<longrightarrow> Some buf \<notin> set (tl (history_window (history_save buf c))))
      \<and> (\<forall>j. j < 0 \<or> dt_conf_get_int c key_history_max \<le> j \<longrightarrow>
            history_slot (history_save buf c) j = history_slot c j))
   \<and> (history_slot c 0 \<noteq> Some buf
        \<and> INT_MIN + 2 \<le> dt_conf_get_int c key_history_max \<and> dt_conf_get_int c key_history_max \<le> 0 \<longrightarrow>
        (\<forall>j. j \<noteq> 0 \<longrightarrow> history_slot (history_save buf c) j = history_slot c j))"
proof (intro conjI impI allI)
  show "history_slot (history_save buf c) 0 = Some buf"
    by (rule history_save_slot0)
next
  assume "history_slot c 0 = Some buf"
  then show "history_save buf c = c"
    by (rule history_save_early)
next
  assume a: "history_slot c 0 \<noteq> Some buf
        \<and> 1 \<le> dt_conf_get_int c key_history_max \<and> dt_conf_get_int c key_history_max \<le> INT_MAX"
  then have ne: "history_slot c 0 \<noteq> Some buf"
    and lo: "1 \<le> dt_conf_get_int c key_history_max"
    and hi: "dt_conf_get_int c key_history_max \<le> INT_MAX"
    by simp_all
  from ne lo hi show w: "history_window (history_save buf c) =
          take (nat (dt_conf_get_int c key_history_max))
            (Some buf # history_slot c 0
               # filter (\<lambda>e. e \<noteq> Some buf) (tl (history_window c))
               @ replicate (length (filter (\<lambda>e. e = Some buf) (tl (history_window c)))) (Some []))"
    by (rule history_save_window)
  assume b: "buf \<noteq> []"
  let ?rest = "history_slot c 0
               # filter (\<lambda>e. e \<noteq> Some buf) (tl (history_window c))
               @ replicate (length (filter (\<lambda>e. e = Some buf) (tl (history_window c)))) (Some [])"
  have "tl (history_window (history_save buf c))
      = take (nat (dt_conf_get_int c key_history_max) - 1) ?rest"
    by (simp add: w tl_take)
  moreover have "Some buf \<notin> set ?rest"
    using ne b by auto
  ultimately show "Some buf \<notin> set (tl (history_window (history_save buf c)))"
    by (metis in_set_takeD)
next
  fix j
  assume a: "history_slot c 0 \<noteq> Some buf
        \<and> 1 \<le> dt_conf_get_int c key_history_max \<and> dt_conf_get_int c key_history_max \<le> INT_MAX"
    and j: "j < 0 \<or> dt_conf_get_int c key_history_max \<le> j"
  from a have "INT_MIN + 2 \<le> dt_conf_get_int c key_history_max"
    by (simp add: INT_MIN_def)
  moreover from a j have "j < 0 \<or> (1 \<le> j \<and> dt_conf_get_int c key_history_max \<le> j)"
    by auto
  ultimately show "history_slot (history_save buf c) j = history_slot c j"
    using a by (intro history_save_outside) simp_all
next
  fix j :: int
  assume a: "history_slot c 0 \<noteq> Some buf
        \<and> INT_MIN + 2 \<le> dt_conf_get_int c key_history_max \<and> dt_conf_get_int c key_history_max \<le> 0"
    and j: "j \<noteq> 0"
  from a have "dt_conf_get_int c key_history_max \<le> INT_MAX"
    by (simp add: INT_MAX_def)
  moreover from a j have "j < 0 \<or> (1 \<le> j \<and> dt_conf_get_int c key_history_max \<le> j)"
    by auto
  ultimately show "history_slot (history_save buf c) j = history_slot c j"
    using a by (intro history_save_outside) simp_all
qed

lemma example_history_values:
  "dt_conf_get_int example_history_conf key_history_max = 4"
  "history_slot example_history_conf 0 = Some ''a''"
  "history_slot example_history_conf 1 = Some ''b''"
  "history_slot example_history_conf 2 = Some ''c''"
  "history_slot example_history_conf 3 = Some ''b''"
  by (simp_all add: example_history_conf_def history_slot_def dt_conf_get_int_def dt_conf_get_string_def)

lemma upto_0_3: "[0..3] = [0, 1, 2, (3::int)]"
  by (simp add: upto_rec1)

lemma example_history_window:
  "history_window example_history_conf = [Some ''a'', Some ''b'', Some ''c'', Some ''b'']"
  by (simp add: history_window_def example_history_values upto_0_3)

lemma stale_history_values:
  "dt_conf_get_int (stale_history_conf n) key_history_max = n"
  "history_slot (stale_history_conf n) 0 = Some ''a''"
  "history_slot (stale_history_conf n) 1 = Some ''c''"
  "history_slot (stale_history_conf n) 2 = Some ''b''"
  by (simp_all add: stale_history_conf_def history_slot_def dt_conf_get_int_def dt_conf_get_string_def)

theorem history_save_maintains_history_witness:
  "history_window (history_save ''b'' example_history_conf)
     = [Some ''b'', Some ''a'', Some ''c'', Some []]
   \<and> history_slot (history_save ''b'' (stale_history_conf 0)) 1 = Some ''c''"
  using history_save_maintains_history [of "''b''" example_history_conf]
    history_save_maintains_history [of "''b''" "stale_history_conf 0"]
  by (simp add: example_history_values example_history_window stale_history_values
      INT_MAX_def INT_MIN_def)

text \<open>
  Claim C4 as stated fails.  With \<open>history_max = 2\<close> and three stored entries, the third
  equal to the serialization, the third entry stays: an entry equal to the serialization
  is not removed, and three entries are kept.  With \<open>history_max = 0\<close> slot \<open>history0\<close>
  is written all the same.
\<close>

theorem history_save_counterexample:
  "dt_conf_get_int (stale_history_conf 2) key_history_max = 2
   \<and> history_slot (stale_history_conf 2) 0 = Some ''a''
   \<and> history_slot (stale_history_conf 2) 2 = Some ''b''
   \<and> history_slot (history_save ''b'' (stale_history_conf 2)) 0 = Some ''b''
   \<and> history_slot (history_save ''b'' (stale_history_conf 2)) 1 = Some ''a''
   \<and> history_slot (history_save ''b'' (stale_history_conf 2)) 2 = Some ''b''
   \<and> dt_conf_get_int (stale_history_conf 0) key_history_max = 0
   \<and> history_slot (history_save ''b'' (stale_history_conf 0)) 0 = Some ''b''"
proof -
  have ne: "history_slot (stale_history_conf 2) 0 \<noteq> Some ''b''"
    by (simp add: stale_history_values)
  have lo: "INT_MIN + 2 \<le> dt_conf_get_int (stale_history_conf 2) key_history_max"
    and hi: "dt_conf_get_int (stale_history_conf 2) key_history_max \<le> INT_MAX"
    by (simp_all add: stale_history_values INT_MIN_def INT_MAX_def)
  have "history_slot (history_remove_loop ''b'' 2 1 0 (stale_history_conf 2)) 0
      = history_slot (stale_history_conf 2) 0"
    by (rule remove_loop_outside) simp_all
  then have s1: "history_slot (history_save ''b'' (stale_history_conf 2)) 1 = Some ''a''"
    using history_save_slot [OF ne lo hi, of 1] by (simp add: stale_history_values)
  have s2: "history_slot (history_save ''b'' (stale_history_conf 2)) 2 = Some ''b''"
    using history_save_outside [OF ne lo hi, of 2] by (simp add: stale_history_values)
  show ?thesis
    using s1 s2 by (simp add: stale_history_values history_save_slot0)
qed

text \<open>
  The lower bound on \<open>history_max\<close> is needed: at \<open>INT_MIN\<close> the subtraction
  \<open>nbmax - 2\<close> wraps around to \<open>INT_MAX - 1\<close>, and the second loop moves the old
  slot 0 to slot 1.
\<close>

lemma history_save_wraps:
  "history_slot (history_save ''b'' (stale_history_conf INT_MIN)) 1 = Some ''a''"
proof -
  have w: "int32_wrap (INT_MIN - 2) = INT_MAX - 1"
    by (simp add: int32_wrap_def INT_MIN_def INT_MAX_def)
  have r: "history_slot (history_remove_loop ''b'' INT_MIN 1 0 (stale_history_conf INT_MIN)) 0
      = history_slot (stale_history_conf INT_MIN) 0"
    by (rule remove_loop_outside) simp_all
  have "dt_conf_get_string (stale_history_conf INT_MIN) key_history0 \<noteq> Some ''b''"
    using stale_history_values(2) [of INT_MIN] by (simp add: history_slot_def)
  then have "history_slot (history_save ''b'' (stale_history_conf INT_MIN)) 1
     = history_slot (history_shift_loop (INT_MAX - 1)
         (history_remove_loop ''b'' INT_MIN 1 0 (stale_history_conf INT_MIN))) 1"
    by (simp add: history_save_def Let_def stale_history_values w history_slot_def
        dt_conf_get_string_def dt_conf_set_string_def key_history0_eq)
  also have "\<dots> = history_slot (history_remove_loop ''b'' INT_MIN 1 0 (stale_history_conf INT_MIN)) 0"
    by (subst shift_loop_slot) (simp_all add: INT_MAX_def)
  finally show ?thesis
    by (simp add: r stale_history_values)
qed

subsection \<open>C9: saving the history twice\<close>

text \<open>
  Claim C9.  A second \<open>_history_save\<close> with the same serialization changes nothing:
  slot \<open>history0\<close> holds the serialization after the first call, and the second call
  returns at once.
\<close>

theorem history_save_idempotent:
  "history_save buf (history_save buf c) = history_save buf c"
  using history_save_slot0 [of buf c] by (rule history_save_early)

subsection \<open>C5: the keys the module writes\<close>

named_theorems ww



lemma ww_set_int [ww]:
  "k \<in> I \<Longrightarrow> writes_within I S c c' \<Longrightarrow> writes_within I S c (dt_conf_set_int k v c')"
  by (auto simp: writes_within_def dt_conf_set_int_def)

lemma ww_set_string [ww]:
  "k \<in> S \<Longrightarrow> writes_within I S c c' \<Longrightarrow> writes_within I S c (dt_conf_set_string k v c')"
  by (auto simp: writes_within_def dt_conf_set_string_def)

lemma module_keys [simp]:
  "key_num_rules \<in> module_int_keys"
  "key_order \<in> module_int_keys"
  "key_item i \<in> module_int_keys"
  "key_mode i \<in> module_int_keys"
  "key_off i \<in> module_int_keys"
  "key_nb_use i \<in> module_int_keys"
  "key_string i \<in> module_str_keys"
  "key_history i \<in> module_str_keys"
  by (simp_all add: module_int_keys_def module_str_keys_def rule_int_keys_def rule_str_keys_def)







lemma conf_get_params [simp]: "conf (snd (get_params s)) = conf s"
  by (simp add: get_params_def)




















end
